theory Spec2Isabelle
  imports Main
begin

section \<open>vite-plugin-entry-dag: the graph builder of \<open>src/index.ts\<close>\<close>

text \<open>
  The plugin's \<open>generateBundle\<close> hook walks the host's module graph from each configured
  entry and writes a node/edge graph. The embedding follows \<open>src/index.ts\<close> function by
  function. Identifiers are \<open>string\<close>s; the mutable locals of \<open>generateBundle\<close>
  (\<open>nodes\<close>, \<open>edges\<close>, \<open>nodeIdToOrder\<close>, \<open>edgeKeySet\<close>, \<open>entryRelIds\<close>,
  \<open>orderCounter\<close>, and the per-entry \<open>visited\<close>) are the fields of one state record
  that every closure takes and returns. The \<open>order\<close> numbers are natural numbers. The
  value that the hook serialises with \<open>JSON.stringify\<close> and writes to the output file
  is the result of the model; the serialisation, the output path and the log line are
  not part of it.
\<close>

subsection \<open>Data model (the interfaces of \<open>src/index.ts\<close>, lines 5-28)\<close>

record Options =
  entries :: "string list option"
  outputFile :: "string option"
  extensions :: "string list option"

text \<open>
  Every option is optional in the source. \<open>None\<close> is an absent field; for
  \<open>extensions\<close>, \<open>None\<close> also stands for any value for which \<open>Array.isArray\<close> is false.
\<close>

record DagNode =
  id_node :: string
  order_node :: nat

datatype EdgeKind = Static | Dynamic

record DagEdge =
  source :: string
  target :: string
  kind :: EdgeKind

record DagOutput =
  nodes_out :: "DagNode list"
  edges_out :: "DagEdge list"
  entries_out :: "string list"

subsection \<open>The host: Node's \<open>path\<close> module, the working directory, the module graph\<close>

text \<open>
  \<open>path.relative\<close> and \<open>path.extname\<close> belong to the Node runtime, not to this
  repository, and so do the string methods \<open>toLowerCase\<close> and \<open>trim\<close>, which
  follow the Unicode tables of the JavaScript engine; the builder takes all four as
  parameters. \<open>this.getModuleInfo\<close> is the host
  bundler's lookup into its module table, of which the builder reads the two fields
  \<open>importedIds\<close> and \<open>dynamicallyImportedIds\<close>; the table is finite, and is given here
  as an association list.
\<close>

record ModuleInfo =
  importedIds :: "string list"
  dynamicallyImportedIds :: "string list"

type_synonym ModuleGraph = "(string \<times> ModuleInfo) list"

record Host =
  cwd :: string
  path_relative :: "string \<Rightarrow> string \<Rightarrow> string"
  path_extname :: "string \<Rightarrow> string"
  toLowerCase :: "string \<Rightarrow> string"
  trim :: "string \<Rightarrow> string"

record ResolvedConfig =
  config_root :: string
  config_outDir :: string

text \<open>What the closures of \<open>generateBundle\<close> capture and never change.\<close>

record Env =
  host :: Host
  graph :: ModuleGraph
  root :: string
  supportedExts :: "string list"

definition getModuleInfo :: "Env \<Rightarrow> string \<Rightarrow> ModuleInfo option" where
  "getModuleInfo E i = map_of (graph E) i"

subsection \<open>JavaScript string primitives used by the source\<close>

text \<open>\<open>s.startsWith(p)\<close> and \<open>s.includes(sub)\<close>.\<close>

definition startsWith :: "string \<Rightarrow> string \<Rightarrow> bool" where
  "startsWith s p = (take (length p) s = p)"

fun includesStr :: "string \<Rightarrow> string \<Rightarrow> bool" where
  "includesStr [] sub = (sub = [])"
| "includesStr (c # cs) sub = (startsWith (c # cs) sub \<or> includesStr cs sub)"

subsection \<open>The closures of \<open>generateBundle\<close> (lines 51-86)\<close>

definition normalizeId :: "string \<Rightarrow> string" where
  "normalizeId i = takeWhile (\<lambda>c. c \<noteq> CHR ''?'') i"

definition toRel :: "Env \<Rightarrow> string \<Rightarrow> string" where
  "toRel E absId =
     (let clean = normalizeId absId;
          rel = path_relative (host E) (root E) clean
      in if rel = [] then clean else rel)"

definition normalizeExt :: "Host \<Rightarrow> string \<Rightarrow> string" where
  "normalizeExt H ext =
     (let e = toLowerCase H (trim H ext)
      in if startsWith e ''.'' then e else ''.'' @ e)"

definition defaultExts :: "string list" where
  "defaultExts = [''.js'', ''.jsx'', ''.ts'', ''.tsx'', ''.vue'']"

definition configuredExts :: "Host \<Rightarrow> Options \<Rightarrow> string list" where
  "configuredExts H options =
     (case extensions options of
        Some xs \<Rightarrow> if length xs > 0 then map (normalizeExt H) xs else defaultExts
      | None \<Rightarrow> defaultExts)"

definition hasSupportedExt :: "Env \<Rightarrow> string \<Rightarrow> bool" where
  "hasSupportedExt E i =
     (toLowerCase (host E) (path_extname (host E) (normalizeId i)) \<in> set (supportedExts E))"

definition shouldSkip :: "string \<Rightarrow> bool" where
  "shouldSkip i =
     (if i = [] then True
      else if includesStr i ''node_modules'' then True
      else if startsWith i [CHR 0x00] then True
      else False)"

text \<open>
  The mutable locals of lines 44-49 and the \<open>visited\<close> set of line 90: the two
  arrays are lists, the \<open>Map\<close> is a partial map, the two \<open>Set\<close>s are sets.
\<close>

record State =
  nodes :: "DagNode list"
  edges :: "DagEdge list"
  nodeIdToOrder :: "string \<rightharpoonup> nat"
  edgeKeySet :: "string set"
  entryRelIds :: "string list"
  orderCounter :: nat
  visited :: "string set"

definition ensureNode :: "Env \<Rightarrow> string \<Rightarrow> State \<Rightarrow> string \<times> State" where
  "ensureNode E absId st =
     (let relId = toRel E absId
      in if nodeIdToOrder st relId = None
         then (relId,
               st\<lparr>nodeIdToOrder := (nodeIdToOrder st)(relId \<mapsto> orderCounter st),
                  orderCounter := orderCounter st + 1,
                  nodes := nodes st @ [\<lparr>id_node = relId, order_node = orderCounter st\<rparr>]\<rparr>)
         else (relId, st))"

text \<open>
  \<open>addEdge\<close> builds its key with the template \<open>`${fromRel}|${toRel}|${kind}`\<close>;
  \<open>kindStr\<close> is the text of the kind in it.
\<close>

definition kindStr :: "EdgeKind \<Rightarrow> string" where
  "kindStr k = (case k of Static \<Rightarrow> ''static'' | Dynamic \<Rightarrow> ''dynamic'')"

definition edgeKey :: "string \<Rightarrow> string \<Rightarrow> EdgeKind \<Rightarrow> string" where
  "edgeKey fromRel toRel' k = fromRel @ ''|'' @ toRel' @ ''|'' @ kindStr k"

definition addEdge :: "string \<Rightarrow> string \<Rightarrow> EdgeKind \<Rightarrow> State \<Rightarrow> State" where
  "addEdge fromRel toRel' k st =
     (let key = edgeKey fromRel toRel' k
      in if key \<in> edgeKeySet st then st
         else st\<lparr>edgeKeySet := insert key (edgeKeySet st),
                 edges := edges st @ [\<lparr>source = fromRel, target = toRel', kind = k\<rparr>]\<rparr>)"

subsection \<open>The walk (lines 96-138)\<close>

text \<open>
  \<open>registerSelf\<close> is the head of \<open>traverse\<close> (lines 98-102): the current identifier
  becomes a node when it has a supported extension and is not registered yet.

  The two \<open>for\<close> loops of \<open>traverse\<close> have the same body up to the edge kind.
  \<open>recordDep\<close> is the first half of that body for a dependency that is not skipped
  (lines 109-117 and 126-132): the node and edge bookkeeping. \<open>traverse_deps\<close> is the
  loop, with the kind as a parameter; its second half is the \<open>visited\<close> guard and the
  recursive call (lines 118-121 and 133-136).
\<close>

definition registerSelf :: "Env \<Rightarrow> string \<Rightarrow> State \<Rightarrow> State" where
  "registerSelf E i st =
     (let fromRel = toRel E i
      in if hasSupportedExt E i \<and> nodeIdToOrder st fromRel = None
         then snd (ensureNode E i st) else st)"

definition recordDep :: "Env \<Rightarrow> EdgeKind \<Rightarrow> string \<Rightarrow> string \<Rightarrow> State \<Rightarrow> State" where
  "recordDep E k i dep st =
     (let fromRel = toRel E i; depRel = toRel E dep
      in if hasSupportedExt E i \<and> hasSupportedExt E dep
         then addEdge fromRel depRel k
                (if nodeIdToOrder st depRel = None then snd (ensureNode E dep st) else st)
         else if hasSupportedExt E dep \<and> nodeIdToOrder st depRel = None
         then snd (ensureNode E dep st)
         else st)"

text \<open>\<open>visited.add(dep)\<close>.\<close>

definition markVisited :: "string \<Rightarrow> State \<Rightarrow> State" where
  "markVisited dep st = st\<lparr>visited := insert dep (visited st)\<rparr>"

text \<open>
  Every identifier that some row of the module table lists as a dependency. The set is
  finite; the termination proof of the walk counts its members outside \<open>visited\<close>.
\<close>

definition depIds :: "ModuleGraph \<Rightarrow> string set" where
  "depIds g = (\<Union>(k, info) \<in> set g. set (importedIds info) \<union> set (dynamicallyImportedIds info))"

function traverse :: "Env \<Rightarrow> string \<Rightarrow> State \<Rightarrow> State"
  and traverse_deps :: "Env \<Rightarrow> EdgeKind \<Rightarrow> string \<Rightarrow> string list \<Rightarrow> State \<Rightarrow> State"
where
  "traverse E i st =
     (case getModuleInfo E i of
        None \<Rightarrow> registerSelf E i st
      | Some info \<Rightarrow>
          traverse_deps E Dynamic i (dynamicallyImportedIds info)
            (traverse_deps E Static i (importedIds info) (registerSelf E i st)))"
| "traverse_deps E k i [] st = st"
| "traverse_deps E k i (dep # deps) st =
     (if shouldSkip dep then traverse_deps E k i deps st
      else if dep \<notin> visited (recordDep E k i dep st)
      then traverse_deps E k i deps (traverse E dep (markVisited dep (recordDep E k i dep st)))
      else traverse_deps E k i deps (recordDep E k i dep st))"
  by pat_completeness auto

subsection \<open>The entry loop and the output (lines 39-49 and 88-151)\<close>

definition initState :: State where
  "initState =
     \<lparr>nodes = [], edges = [], nodeIdToOrder = Map.empty, edgeKeySet = {},
      entryRelIds = [], orderCounter = 1, visited = {}\<rparr>"

text \<open>
  One iteration of \<open>for (const entry of entries)\<close>: an empty entry is passed over;
  otherwise \<open>visited\<close> starts empty, a supported entry gets its node and its place in
  \<open>entryRelIds\<close>, and the walk starts with the entry marked as visited.
\<close>

definition processEntry :: "Env \<Rightarrow> State \<Rightarrow> string \<Rightarrow> State" where
  "processEntry E st entry =
     (if entry = [] then st
      else let st0 = st\<lparr>visited := {}\<rparr>;
               st1 = (if hasSupportedExt E entry
                      then (case ensureNode E entry st0 of
                              (entryRel, s) \<Rightarrow> s\<lparr>entryRelIds := entryRelIds s @ [entryRel]\<rparr>)
                      else st0)
           in traverse E entry (markVisited entry st1))"

definition mkEnv :: "Host \<Rightarrow> Options \<Rightarrow> ResolvedConfig \<Rightarrow> ModuleGraph \<Rightarrow> Env" where
  "mkEnv H options c G =
     \<lparr>host = H, graph = G,
      root = (if config_root c = [] then cwd H else config_root c),
      supportedExts = configuredExts H options\<rparr>"

definition entriesOf :: "Options \<Rightarrow> string list" where
  "entriesOf options = (case entries options of None \<Rightarrow> [] | Some es \<Rightarrow> es)"

definition runEntries :: "Env \<Rightarrow> string list \<Rightarrow> State" where
  "runEntries E es = foldl (processEntry E) initState es"

text \<open>
  \<open>generateBundle\<close> returns the value \<open>result\<close> that the hook hands to
  \<open>JSON.stringify\<close> and \<open>fs.writeFileSync\<close>, and \<open>None\<close> when the hook returns
  early because no configuration was resolved. \<open>nodes.sort\<close> with the comparator
  \<open>a.order - b.order\<close> is a stable sort on \<open>order\<close>.
\<close>

definition generateBundle ::
  "Host \<Rightarrow> Options \<Rightarrow> ResolvedConfig option \<Rightarrow> ModuleGraph \<Rightarrow> DagOutput option" where
  "generateBundle H options config G =
     (case config of
        None \<Rightarrow> None
      | Some c \<Rightarrow>
          (let st = runEntries (mkEnv H options c G) (entriesOf options)
           in Some \<lparr>nodes_out = sort_key order_node (nodes st),
                     edges_out = edges st,
                     entries_out = entryRelIds st\<rparr>))"

subsection \<open>A POSIX host\<close>

text \<open>
  Node's \<open>path.relative\<close> and \<open>path.extname\<close> in their POSIX flavour, as the Node
  documentation describes them, on path segments: \<open>resolve\<close> makes a path absolute
  against the working directory and removes empty, \<open>.\<close> and \<open>..\<close> segments;
  \<open>relative\<close> drops the common leading segments of the two resolved paths, climbs out
  of what is left of the first and descends into what is left of the second;
  \<open>extname\<close> is the part of the last segment from its last dot on, and is empty when
  there is no dot, when the only dot starts the segment, and for the segment \<open>..\<close>.
  \<open>ascii_toLowerCase\<close> and \<open>ascii_trim\<close> are \<open>toLowerCase\<close> and \<open>trim\<close> as
  they act on ASCII text: the first maps \<open>A\<close>-\<open>Z\<close> to \<open>a\<close>-\<open>z\<close>, the second
  strips the ASCII white space (space, tab, line feed, vertical tab, form feed, carriage
  return) at both ends. The host \<open>posix\<close> is used on ASCII identifiers and extensions
  only.
\<close>

definition ascii_toLowerCase :: "string \<Rightarrow> string" where
  "ascii_toLowerCase s =
     map (\<lambda>c. case map_of (zip ''ABCDEFGHIJKLMNOPQRSTUVWXYZ'' ''abcdefghijklmnopqrstuvwxyz'') c of
                 Some l \<Rightarrow> l | None \<Rightarrow> c) s"

definition isSpace :: "char \<Rightarrow> bool" where
  "isSpace c = (c \<in> set [CHR '' '', CHR 0x09, CHR 0x0A, CHR 0x0B, CHR 0x0C, CHR 0x0D])"

definition ascii_trim :: "string \<Rightarrow> string" where
  "ascii_trim s = rev (dropWhile isSpace (rev (dropWhile isSpace s)))"

fun splitOn :: "char \<Rightarrow> string \<Rightarrow> string list" where
  "splitOn c [] = [[]]"
| "splitOn c (x # xs) =
     (if x = c then [] # splitOn c xs
      else (case splitOn c xs of w # ws \<Rightarrow> (x # w) # ws | [] \<Rightarrow> [[x]]))"

fun joinWith :: "string \<Rightarrow> string list \<Rightarrow> string" where
  "joinWith sep [] = []"
| "joinWith sep [w] = w"
| "joinWith sep (w # ws) = w @ sep @ joinWith sep ws"

definition posix_resolve :: "string \<Rightarrow> string \<Rightarrow> string list" where
  "posix_resolve wd p =
     foldl (\<lambda>acc seg. if seg = [] \<or> seg = ''.'' then acc
                       else if seg = ''..'' then butlast acc
                       else acc @ [seg])
       [] (splitOn CHR ''/'' (if startsWith p ''/'' then p else wd @ ''/'' @ p))"

fun dropCommon :: "string list \<Rightarrow> string list \<Rightarrow> string list \<times> string list" where
  "dropCommon (x # xs) (y # ys) = (if x = y then dropCommon xs ys else (x # xs, y # ys))"
| "dropCommon xs ys = (xs, ys)"

definition posix_relative :: "string \<Rightarrow> string \<Rightarrow> string \<Rightarrow> string" where
  "posix_relative wd from to =
     (case dropCommon (posix_resolve wd from) (posix_resolve wd to) of
        (f, t) \<Rightarrow> joinWith ''/'' (replicate (length f) ''..'' @ t))"

definition posix_extname :: "string \<Rightarrow> string" where
  "posix_extname p =
     (let base = rev (takeWhile (\<lambda>c. c \<noteq> CHR ''/'') (dropWhile (\<lambda>c. c = CHR ''/'') (rev p)));
          ext = rev (takeWhile (\<lambda>c. c \<noteq> CHR ''.'') (rev base));
          stem = rev (drop (Suc (length ext)) (rev base))
      in if CHR ''.'' \<notin> set base then []
         else if stem = [] then []
         else if base = ''..'' then []
         else CHR ''.'' # ext)"

definition posix :: "string \<Rightarrow> Host" where
  "posix wd =
     \<lparr>cwd = wd, path_relative = posix_relative wd, path_extname = posix_extname,
      toLowerCase = ascii_toLowerCase, trim = ascii_trim\<rparr>"

subsection \<open>The skip policy in the words of the specification\<close>

text \<open>
  Section 4.3 of the specification: an identifier must be skipped when it is empty, when
  it contains a path segment that denotes third-party dependency storage (a
  \<open>node_modules\<close> directory), or when it begins with the marker character of virtual
  modules.
\<close>

definition mustSkip_spec :: "string \<Rightarrow> bool" where
  "mustSkip_spec i =
     (i = [] \<or> ''node_modules'' \<in> set (splitOn CHR ''/'' i) \<or> startsWith i [CHR 0x00])"

subsection \<open>Well-formed builder states\<close>

text \<open>
  What the bookkeeping of \<open>ensureNode\<close> and \<open>addEdge\<close> maintains: \<open>nodeIdToOrder\<close>
  indexes exactly the ids of \<open>nodes\<close>, which are pairwise different and numbered
  \<open>1, 2, ...\<close> in list order up to \<open>orderCounter\<close>; \<open>edgeKeySet\<close> holds exactly the
  keys of \<open>edges\<close>, which are pairwise different; and every edge joins two registered
  nodes that are the canonical ids of identifiers with a supported extension.
\<close>

definition edgeKeyOf :: "DagEdge \<Rightarrow> string" where
  "edgeKeyOf e = edgeKey (source e) (target e) (kind e)"

definition nodeIds :: "State \<Rightarrow> string set" where
  "nodeIds st = set (map id_node (nodes st))"

definition supportedRel :: "Env \<Rightarrow> string \<Rightarrow> bool" where
  "supportedRel E r = (\<exists>i. hasSupportedExt E i \<and> toRel E i = r)"

definition wf_state :: "Env \<Rightarrow> State \<Rightarrow> bool" where
  "wf_state E st =
     (dom (nodeIdToOrder st) = nodeIds st \<and>
      distinct (map id_node (nodes st)) \<and>
      map order_node (nodes st) = [1 ..< orderCounter st] \<and>
      1 \<le> orderCounter st \<and>
      edgeKeySet st = edgeKeyOf ` set (edges st) \<and>
      distinct (map edgeKeyOf (edges st)) \<and>
      (\<forall>e \<in> set (edges st).
         source e \<in> nodeIds st \<and> target e \<in> nodeIds st \<and>
         supportedRel E (source e) \<and> supportedRel E (target e)))"

subsection \<open>Example inputs\<close>

text \<open>
  The example of section 8 of the specification: \<open>main.ts\<close> imports \<open>a.ts\<close>
  statically and \<open>b.ts\<close> dynamically, \<open>a.ts\<close> imports \<open>main.ts\<close> back, and the host
  knows nothing about \<open>b.ts\<close>.
\<close>

definition exampleConfig :: ResolvedConfig where
  "exampleConfig = \<lparr>config_root = ''/proj'', config_outDir = ''dist''\<rparr>"

definition exampleOptions :: Options where
  "exampleOptions = \<lparr>entries = Some [''/proj/src/main.ts''], outputFile = None, extensions = None\<rparr>"

definition exampleGraph :: ModuleGraph where
  "exampleGraph =
     [(''/proj/src/main.ts'',
         \<lparr>importedIds = [''/proj/src/a.ts''], dynamicallyImportedIds = [''/proj/src/b.ts'']\<rparr>),
      (''/proj/src/a.ts'',
         \<lparr>importedIds = [''/proj/src/main.ts''], dynamicallyImportedIds = []\<rparr>)]"

definition exampleOutput :: DagOutput where
  "exampleOutput =
     \<lparr>nodes_out = [\<lparr>id_node = ''src/main.ts'', order_node = 1\<rparr>,
                   \<lparr>id_node = ''src/a.ts'', order_node = 2\<rparr>,
                   \<lparr>id_node = ''src/b.ts'', order_node = 3\<rparr>],
      edges_out = [\<lparr>source = ''src/main.ts'', target = ''src/a.ts'', kind = Static\<rparr>,
                   \<lparr>source = ''src/a.ts'', target = ''src/main.ts'', kind = Static\<rparr>,
                   \<lparr>source = ''src/main.ts'', target = ''src/b.ts'', kind = Dynamic\<rparr>],
      entries_out = [''src/main.ts'']\<rparr>"

text \<open>The same example with a second entry, \<open>c.ts\<close>, that the host does not know.\<close>

definition twoEntryOptions :: Options where
  "twoEntryOptions =
     \<lparr>entries = Some [''/proj/src/main.ts'', ''/proj/src/c.ts''], outputFile = None,
      extensions = None\<rparr>"

definition twoEntryOutput :: DagOutput where
  "twoEntryOutput =
     \<lparr>nodes_out = [\<lparr>id_node = ''src/main.ts'', order_node = 1\<rparr>,
                   \<lparr>id_node = ''src/a.ts'', order_node = 2\<rparr>,
                   \<lparr>id_node = ''src/b.ts'', order_node = 3\<rparr>,
                   \<lparr>id_node = ''src/c.ts'', order_node = 4\<rparr>],
      edges_out = [\<lparr>source = ''src/main.ts'', target = ''src/a.ts'', kind = Static\<rparr>,
                   \<lparr>source = ''src/a.ts'', target = ''src/main.ts'', kind = Static\<rparr>,
                   \<lparr>source = ''src/main.ts'', target = ''src/b.ts'', kind = Dynamic\<rparr>],
      entries_out = [''src/main.ts'', ''src/c.ts'']\<rparr>"

text \<open>The same table with its rows in the other order and a shadowed duplicate row.\<close>

definition exampleGraph' :: ModuleGraph where
  "exampleGraph' =
     [(''/proj/src/a.ts'',
         \<lparr>importedIds = [''/proj/src/main.ts''], dynamicallyImportedIds = []\<rparr>),
      (''/proj/src/main.ts'',
         \<lparr>importedIds = [''/proj/src/a.ts''], dynamicallyImportedIds = [''/proj/src/b.ts'']\<rparr>),
      (''/proj/src/a.ts'', \<lparr>importedIds = [], dynamicallyImportedIds = []\<rparr>)]"

text \<open>
  \<open>main.ts\<close> imports a package from \<open>node_modules\<close>, and the package imports a source
  file of the project that nothing else imports.
\<close>

definition skipGraph :: ModuleGraph where
  "skipGraph =
     [(''/proj/src/main.ts'',
         \<lparr>importedIds = [''/proj/node_modules/lib/index.js''], dynamicallyImportedIds = []\<rparr>),
      (''/proj/node_modules/lib/index.js'',
         \<lparr>importedIds = [''/proj/src/hidden.ts''], dynamicallyImportedIds = []\<rparr>)]"

text \<open>\<open>main.ts\<close> imports \<open>a.ts\<close> both statically and dynamically.\<close>

definition twinGraph :: ModuleGraph where
  "twinGraph =
     [(''/proj/src/main.ts'',
         \<lparr>importedIds = [''/proj/src/a.ts''], dynamicallyImportedIds = [''/proj/src/a.ts'']\<rparr>)]"

text \<open>A style sheet, which has no supported extension, imports \<open>a.ts\<close>.\<close>

definition cssOptions :: Options where
  "cssOptions = \<lparr>entries = Some [''/proj/src/style.css''], outputFile = None, extensions = None\<rparr>"

definition cssGraph :: ModuleGraph where
  "cssGraph =
     [(''/proj/src/style.css'',
         \<lparr>importedIds = [''/proj/src/a.ts''], dynamicallyImportedIds = []\<rparr>)]"

text \<open>The two-module cycle: \<open>a.ts\<close> imports \<open>b.ts\<close> and \<open>b.ts\<close> imports \<open>a.ts\<close>.\<close>

definition cycleOptions :: Options where
  "cycleOptions = \<lparr>entries = Some [''/proj/src/a.ts''], outputFile = None, extensions = None\<rparr>"

definition cycleGraph :: ModuleGraph where
  "cycleGraph =
     [(''/proj/src/a.ts'', \<lparr>importedIds = [''/proj/src/b.ts''], dynamicallyImportedIds = []\<rparr>),
      (''/proj/src/b.ts'', \<lparr>importedIds = [''/proj/src/a.ts''], dynamicallyImportedIds = []\<rparr>)]"

text \<open>A style sheet imports a package from \<open>node_modules\<close>.\<close>

definition cssSkipGraph :: ModuleGraph where
  "cssSkipGraph =
     [(''/proj/src/style.css'',
         \<lparr>importedIds = [''/proj/node_modules/lib/index.js''], dynamicallyImportedIds = []\<rparr>)]"

text \<open>
  A two-module cycle between the files \<open>a.ts\<close> and \<open>a.ts|a.ts\<close> of the project root;
  the second file name contains the character that \<open>addEdge\<close> uses as separator in
  its keys.
\<close>

definition separatorOptions :: Options where
  "separatorOptions = \<lparr>entries = Some [''/proj/a.ts''], outputFile = None, extensions = None\<rparr>"

definition separatorGraph :: ModuleGraph where
  "separatorGraph =
     [(''/proj/a.ts'', \<lparr>importedIds = [''/proj/a.ts|a.ts''], dynamicallyImportedIds = []\<rparr>),
      (''/proj/a.ts|a.ts'', \<lparr>importedIds = [''/proj/a.ts''], dynamicallyImportedIds = []\<rparr>)]"

text \<open>
  The module \<open>a.ts\<close> imports \<open>x.ts|b.ts\<close> and \<open>a.ts|x.ts\<close> dynamically, and
  \<open>a.ts|x.ts\<close> imports \<open>b.ts\<close> both statically and dynamically.
\<close>

definition twinDropOptions :: Options where
  "twinDropOptions = \<lparr>entries = Some [''/proj/a.ts''], outputFile = None, extensions = None\<rparr>"

definition twinDropGraph :: ModuleGraph where
  "twinDropGraph =
     [(''/proj/a.ts'',
         \<lparr>importedIds = [],
            dynamicallyImportedIds = [''/proj/x.ts|b.ts'', ''/proj/a.ts|x.ts'']\<rparr>),
      (''/proj/a.ts|x.ts'',
         \<lparr>importedIds = [''/proj/b.ts''], dynamicallyImportedIds = [''/proj/b.ts'']\<rparr>)]"




subsection \<open>Environments that read alike\<close>

text \<open>
  Everything the walk takes from its environment apart from the module table: the three
  host functions behind \<open>toRel\<close> and \<open>hasSupportedExt\<close>, the root and the supported
  extensions.
\<close>

definition sameReading :: "Env \<Rightarrow> Env \<Rightarrow> bool" where
  "sameReading E' E =
     (path_relative (host E') = path_relative (host E) \<and>
      path_extname (host E') = path_extname (host E) \<and>
      toLowerCase (host E') = toLowerCase (host E) \<and>
      root E' = root E \<and>
      supportedExts E' = supportedExts E)"

section \<open>Termination of the walk\<close>

lemma visited_ensureNode [simp]: "visited (snd (ensureNode E a st)) = visited st"
  by (simp add: ensureNode_def Let_def)

lemma visited_addEdge [simp]: "visited (addEdge f t k st) = visited st"
  by (simp add: addEdge_def Let_def)

lemma visited_recordDep [simp]: "visited (recordDep E k i dep st) = visited st"
  by (simp add: recordDep_def Let_def)

lemma visited_registerSelf [simp]: "visited (registerSelf E i st) = visited st"
  by (simp add: registerSelf_def Let_def)

lemma visited_markVisited [simp]: "visited (markVisited dep st) = insert dep (visited st)"
  by (simp add: markVisited_def)

lemma visited_mono_partial:
  "traverse_traverse_deps_dom (Inl (E, i, st)) \<Longrightarrow> visited st \<subseteq> visited (traverse E i st)"
  "traverse_traverse_deps_dom (Inr (E, k, i, deps, st)) \<Longrightarrow> visited st \<subseteq> visited (traverse_deps E k i deps st)"
proof (induction E i st and E k i deps st rule: traverse_traverse_deps.pinduct)
  case (1 E i st)
  show ?case
  proof (cases "getModuleInfo E i")
    case None
    then show ?thesis using 1(1) by (simp add: traverse.psimps)
  next
    case (Some info)
    from 1(2) [OF Some] 1(3) [OF Some] show ?thesis
      using 1(1) Some by (auto simp: traverse.psimps)
  qed
next
  case (2 E k i st)
  then show ?case by (simp add: traverse_deps.psimps)
next
  case (3 E k i dep deps st)
  show ?case
  proof (cases "shouldSkip dep")
    case True
    then show ?thesis using 3(1) 3(2) by (simp add: traverse_deps.psimps)
  next
    case False
    show ?thesis
    proof (cases "dep \<in> visited st")
      case True
      then show ?thesis using 3(1) 3(5) False by (simp add: traverse_deps.psimps)
    next
      case nv: False
      from 3(3) [OF False] 3(4) [OF False] nv show ?thesis
        using 3(1) False by (auto simp: traverse_deps.psimps)
    qed
  qed
qed

lemma finite_depIds: "finite (depIds g)"
  by (auto simp: depIds_def)

lemma deps_in_depIds:
  assumes "getModuleInfo E i = Some info"
  shows "set (importedIds info) \<subseteq> depIds (graph E)"
    and "set (dynamicallyImportedIds info) \<subseteq> depIds (graph E)"
  using assms map_of_SomeD [of "graph E" i info]
  by (force simp: getModuleInfo_def depIds_def)+

lemma card_unvisited_le:
  assumes "A' \<subseteq> A" "V \<subseteq> V'" "finite A"
  shows "card (A' - V') \<le> card (A - V)"
  by (rule card_mono) (use assms in auto)

lemma card_unvisited_less:
  assumes "A' \<subseteq> A" "V \<subseteq> V'" "finite A" "x \<in> A" "x \<in> V'" "x \<notin> V"
  shows "card (A' - V') < card (A - V)"
  by (rule psubset_card_mono) (use assms in auto)

lemma walk_total: "All traverse_traverse_deps_dom"
proof (relation "inv_image (less_than <*lex*> less_than <*lex*> less_than)
     (\<lambda>x. case x of
         Inl (E, i, st) \<Rightarrow> (card (depIds (graph E) - visited st), 1::nat, 0::nat)
       | Inr (E, k, i, deps, st) \<Rightarrow> (card ((depIds (graph E) \<union> set deps) - visited st), 0, length deps))",
    goal_cases)
  case 1
  show ?case by (intro wf_inv_image wf_lex_prod wf_less_than)
next
  case (2 E i st info)
  have "card ((depIds (graph E) \<union> set (importedIds info)) - visited (registerSelf E i st))
          \<le> card (depIds (graph E) - visited st)"
    using deps_in_depIds(1) [OF 2(1)]
    by (intro card_unvisited_le) (auto simp: finite_depIds)
  then show ?case by (auto dest: le_imp_less_or_eq)
next
  case (3 E i st info)
  let ?st1 = "registerSelf E i st"
  have "visited st \<subseteq> visited (traverse_deps E Static i (importedIds info) ?st1)"
    using visited_mono_partial(2) [OF 3(2)] by simp
  then have "card ((depIds (graph E) \<union> set (dynamicallyImportedIds info))
            - visited (traverse_deps E Static i (importedIds info) ?st1))
          \<le> card (depIds (graph E) - visited st)"
    using deps_in_depIds(2) [OF 3(1)]
    by (intro card_unvisited_le) (auto simp: finite_depIds)
  then show ?case by (auto dest: le_imp_less_or_eq)
next
  case (4 E k i dep deps st)
  have "card ((depIds (graph E) \<union> set deps) - visited st)
          \<le> card ((depIds (graph E) \<union> set (dep # deps)) - visited st)"
    by (intro card_unvisited_le) (auto simp: finite_depIds)
  then show ?case by (auto dest: le_imp_less_or_eq)
next
  case (5 E k i dep deps st)
  have "card (depIds (graph E) - insert dep (visited st))
          < card ((depIds (graph E) \<union> set (dep # deps)) - visited st)"
    using 5 by (intro card_unvisited_less [where x = dep]) (auto simp: finite_depIds)
  then show ?case using 5 by simp
next
  case (6 E k i dep deps st)
  let ?st1 = "markVisited dep (recordDep E k i dep st)"
  have "visited st \<subseteq> visited (traverse E dep ?st1)"
    using visited_mono_partial(1) [OF 6(3)] by simp
  then have "card ((depIds (graph E) \<union> set deps) - visited (traverse E dep ?st1))
          \<le> card ((depIds (graph E) \<union> set (dep # deps)) - visited st)"
    by (intro card_unvisited_le) (auto simp: finite_depIds)
  then show ?case by (auto dest: le_imp_less_or_eq)
next
  case (7 E k i dep deps st)
  have "card ((depIds (graph E) \<union> set deps) - visited (recordDep E k i dep st))
          \<le> card ((depIds (graph E) \<union> set (dep # deps)) - visited st)"
    by (intro card_unvisited_le) (auto simp: finite_depIds)
  then show ?case by (auto dest: le_imp_less_or_eq)
qed

termination traverse
  by (rule walk_total)

declare traverse.simps [simp del]

section \<open>The bookkeeping keeps the state well-formed\<close>

lemma fst_ensureNode [simp]: "fst (ensureNode E a st) = toRel E a"
  by (simp add: ensureNode_def Let_def)

lemma edges_ensureNode [simp]: "edges (snd (ensureNode E a st)) = edges st"
  and edgeKeySet_ensureNode [simp]: "edgeKeySet (snd (ensureNode E a st)) = edgeKeySet st"
  and entryRelIds_ensureNode [simp]: "entryRelIds (snd (ensureNode E a st)) = entryRelIds st"
  by (simp_all add: ensureNode_def Let_def)

lemma nodeIds_ensureNode:
  assumes "dom (nodeIdToOrder st) = nodeIds st"
  shows "nodeIds (snd (ensureNode E a st)) = insert (toRel E a) (nodeIds st)"
  using assms by (auto simp: ensureNode_def Let_def nodeIds_def)

lemma wf_ensureNode:
  assumes "wf_state E st"
  shows "wf_state E (snd (ensureNode E a st))"
proof (cases "nodeIdToOrder st (toRel E a)")
  case (Some n)
  then show ?thesis using assms by (simp add: ensureNode_def)
next
  case None
  let ?r = "toRel E a"
  from None assms have fresh: "?r \<notin> nodeIds st"
    by (metis domIff wf_state_def)
  have upt: "[1 ..< orderCounter st] @ [orderCounter st] = [1 ..< orderCounter st + 1]"
    using assms by (simp add: wf_state_def)
  show ?thesis
    using assms None fresh upt
    by (auto simp: wf_state_def ensureNode_def Let_def nodeIds_def)
qed

lemma nodes_addEdge [simp]: "nodes (addEdge f t k st) = nodes st"
  and nodeIdToOrder_addEdge [simp]: "nodeIdToOrder (addEdge f t k st) = nodeIdToOrder st"
  and orderCounter_addEdge [simp]: "orderCounter (addEdge f t k st) = orderCounter st"
  and entryRelIds_addEdge [simp]: "entryRelIds (addEdge f t k st) = entryRelIds st"
  by (simp_all add: addEdge_def Let_def)

lemma nodeIds_addEdge [simp]: "nodeIds (addEdge f t k st) = nodeIds st"
  by (simp add: nodeIds_def)

lemma wf_addEdge:
  assumes "wf_state E st" "f \<in> nodeIds st" "t \<in> nodeIds st"
    "supportedRel E f" "supportedRel E t"
  shows "wf_state E (addEdge f t k st)"
  using assms
  by (auto simp: wf_state_def addEdge_def Let_def nodeIds_def edgeKeyOf_def)


lemma toRel_in_ensureNode:
  assumes "wf_state E st"
  shows "toRel E a \<in> nodeIds (snd (ensureNode E a st))"
    and "nodeIds st \<subseteq> nodeIds (snd (ensureNode E a st))"
  using assms nodeIds_ensureNode [of st E a] by (auto simp: wf_state_def)

lemma edges_registerSelf [simp]: "edges (registerSelf E i st) = edges st"
  and entryRelIds_registerSelf [simp]: "entryRelIds (registerSelf E i st) = entryRelIds st"
  by (simp_all add: registerSelf_def Let_def)

lemma wf_registerSelf:
  assumes "wf_state E st"
  shows "wf_state E (registerSelf E i st)"
  using assms by (simp add: registerSelf_def Let_def wf_ensureNode)

lemma nodeIds_registerSelf:
  assumes "wf_state E st"
  shows "nodeIds st \<subseteq> nodeIds (registerSelf E i st)"
    and "hasSupportedExt E i \<Longrightarrow> toRel E i \<in> nodeIds (registerSelf E i st)"
proof -
  show "nodeIds st \<subseteq> nodeIds (registerSelf E i st)"
    using toRel_in_ensureNode(2) [OF assms] by (simp add: registerSelf_def Let_def)
  assume sup: "hasSupportedExt E i"
  show "toRel E i \<in> nodeIds (registerSelf E i st)"
  proof (cases "nodeIdToOrder st (toRel E i)")
    case None
    then show ?thesis
      using sup toRel_in_ensureNode(1) [OF assms] by (simp add: registerSelf_def Let_def)
  next
    case (Some n)
    then have "toRel E i \<in> dom (nodeIdToOrder st)" by blast
    then show ?thesis using assms Some by (simp add: registerSelf_def Let_def wf_state_def)
  qed
qed

lemma entryRelIds_recordDep [simp]: "entryRelIds (recordDep E k i dep st) = entryRelIds st"
  by (simp add: recordDep_def Let_def)

lemma nodeIds_recordDep:
  assumes "wf_state E st"
  shows "nodeIds st \<subseteq> nodeIds (recordDep E k i dep st)"
  using toRel_in_ensureNode(2) [OF assms] by (simp add: recordDep_def Let_def)

lemma registered_when_mapped:
  assumes "wf_state E st" "nodeIdToOrder st r = Some n"
  shows "r \<in> nodeIds st"
  using assms by (metis domI wf_state_def)

lemma wf_recordDep:
  assumes wf: "wf_state E st" and src: "hasSupportedExt E i \<longrightarrow> toRel E i \<in> nodeIds st"
  shows "wf_state E (recordDep E k i dep st)"
proof (cases "hasSupportedExt E i \<and> hasSupportedExt E dep")
  case False
  then show ?thesis using wf by (auto simp: recordDep_def Let_def wf_ensureNode)
next
  case True
  let ?st1 = "if nodeIdToOrder st (toRel E dep) = None then snd (ensureNode E dep st) else st"
  have wf1: "wf_state E ?st1" using wf by (simp add: wf_ensureNode)
  have sub: "nodeIds st \<subseteq> nodeIds ?st1"
    using toRel_in_ensureNode(2) [OF wf] by simp
  have dst: "toRel E dep \<in> nodeIds ?st1"
    using toRel_in_ensureNode(1) [OF wf] registered_when_mapped [OF wf] by auto
  have "wf_state E (addEdge (toRel E i) (toRel E dep) k ?st1)"
    using wf1 True src sub dst
    by (intro wf_addEdge) (auto simp: supportedRel_def)
  then show ?thesis using True by (simp add: recordDep_def Let_def)
qed

lemma wf_markVisited [simp]: "wf_state E (markVisited d st) = wf_state E st"
  by (simp add: wf_state_def markVisited_def nodeIds_def)

lemma nodeIds_markVisited [simp]: "nodeIds (markVisited d st) = nodeIds st"
  by (simp add: markVisited_def nodeIds_def)

lemma wf_walk:
  "wf_state E st \<Longrightarrow>
     wf_state E (traverse E i st) \<and> nodeIds st \<subseteq> nodeIds (traverse E i st)"
  "wf_state E st \<Longrightarrow> (hasSupportedExt E i \<longrightarrow> toRel E i \<in> nodeIds st) \<Longrightarrow>
     wf_state E (traverse_deps E k i deps st) \<and> nodeIds st \<subseteq> nodeIds (traverse_deps E k i deps st)"
proof (induction E i st and E k i deps st rule: traverse_traverse_deps.induct)
  case (1 E i st)
  let ?st1 = "registerSelf E i st"
  have wf1: "wf_state E ?st1" using "1.prems" by (rule wf_registerSelf)
  have sub1: "nodeIds st \<subseteq> nodeIds ?st1" using "1.prems" by (rule nodeIds_registerSelf(1))
  have src1: "hasSupportedExt E i \<longrightarrow> toRel E i \<in> nodeIds ?st1"
    using nodeIds_registerSelf(2) [OF "1.prems"] by blast
  show ?case
  proof (cases "getModuleInfo E i")
    case None
    then show ?thesis using wf1 sub1 by (simp add: traverse.simps)
  next
    case (Some info)
    let ?st2 = "traverse_deps E Static i (importedIds info) ?st1"
    have s2: "wf_state E ?st2 \<and> nodeIds ?st1 \<subseteq> nodeIds ?st2"
      using "1.IH"(1) [OF Some wf1 src1] .
    then have src2: "hasSupportedExt E i \<longrightarrow> toRel E i \<in> nodeIds ?st2"
      using src1 by blast
    have "wf_state E (traverse_deps E Dynamic i (dynamicallyImportedIds info) ?st2)
        \<and> nodeIds ?st2 \<subseteq> nodeIds (traverse_deps E Dynamic i (dynamicallyImportedIds info) ?st2)"
      using "1.IH"(2) [OF Some] s2 src2 by blast
    then show ?thesis using Some s2 sub1 by (auto simp: traverse.simps)
  qed
next
  case (2 E k i st)
  then show ?case by simp
next
  case (3 E k i dep deps st)
  show ?case
  proof (cases "shouldSkip dep")
    case True
    then show ?thesis using "3.IH"(1) [OF True "3.prems"] by simp
  next
    case False
    let ?st1 = "recordDep E k i dep st"
    have wf1: "wf_state E ?st1" using "3.prems" by (rule wf_recordDep)
    have sub1: "nodeIds st \<subseteq> nodeIds ?st1" using "3.prems"(1) by (rule nodeIds_recordDep)
    show ?thesis
    proof (cases "dep \<in> visited ?st1")
      case True
      have "wf_state E (traverse_deps E k i deps ?st1)
          \<and> nodeIds ?st1 \<subseteq> nodeIds (traverse_deps E k i deps ?st1)"
        using "3.IH"(4) [OF False] True wf1 sub1 "3.prems"(2) by blast
      then show ?thesis using False True sub1 by auto
    next
      case nv: False
      let ?st2 = "traverse E dep (markVisited dep ?st1)"
      have s2: "wf_state E ?st2 \<and> nodeIds ?st1 \<subseteq> nodeIds ?st2"
        using "3.IH"(2) [OF False nv] wf1 by simp
      have "wf_state E (traverse_deps E k i deps ?st2)
          \<and> nodeIds ?st2 \<subseteq> nodeIds (traverse_deps E k i deps ?st2)"
        using "3.IH"(3) [OF False nv] s2 sub1 "3.prems"(2) by blast
      then show ?thesis using False nv s2 sub1 by auto
    qed
  qed
qed

section \<open>The entry loop\<close>

lemma wf_initState: "wf_state E initState"
  by (simp add: wf_state_def initState_def nodeIds_def)

lemma wf_state_visited_update [simp]: "wf_state E (st\<lparr>visited := v\<rparr>) = wf_state E st"
  by (simp add: wf_state_def nodeIds_def)

lemma wf_state_entryRelIds_update [simp]: "wf_state E (st\<lparr>entryRelIds := r\<rparr>) = wf_state E st"
  by (simp add: wf_state_def nodeIds_def)

lemma wf_processEntry:
  assumes "wf_state E st"
  shows "wf_state E (processEntry E st entry)"
proof (cases "entry = []")
  case True
  then show ?thesis using assms by (simp add: processEntry_def)
next
  case False
  have "wf_state E (snd (ensureNode E entry (st\<lparr>visited := {}\<rparr>)))"
    using assms by (simp add: wf_ensureNode)
  then show ?thesis
    using False assms
    by (auto simp: processEntry_def Let_def wf_walk(1) split: prod.splits)
qed

lemma wf_foldl_processEntry:
  "wf_state E st \<Longrightarrow> wf_state E (foldl (processEntry E) st es)"
  by (induction es arbitrary: st) (simp_all add: wf_processEntry)

lemma wf_runEntries: "wf_state E (runEntries E es)"
  by (simp add: runEntries_def wf_foldl_processEntry wf_initState)

lemma sort_nodes_id:
  assumes "wf_state E st"
  shows "sort_key order_node (nodes st) = nodes st"
  using assms by (intro sort_key_id_if_sorted) (simp add: wf_state_def)

lemma generateBundle_output:
  assumes "generateBundle H options (Some c) G = Some out"
  shows "out = \<lparr>nodes_out = nodes (runEntries (mkEnv H options c G) (entriesOf options)),
               edges_out = edges (runEntries (mkEnv H options c G) (entriesOf options)),
               entries_out = entryRelIds (runEntries (mkEnv H options c G) (entriesOf options))\<rparr>"
  using assms sort_nodes_id [OF wf_runEntries, of "mkEnv H options c G" "entriesOf options"]
  by (auto simp: generateBundle_def Let_def)

lemma generateBundle_config:
  assumes "generateBundle H options config G = Some out"
  obtains c where "config = Some c"
  using assms by (cases config) (simp_all add: generateBundle_def)

lemma length_nodes_wf:
  assumes "wf_state E st"
  shows "orderCounter st = Suc (length (nodes st))"
proof -
  have "length (map order_node (nodes st)) = length [1 ..< orderCounter st]"
    using assms by (simp add: wf_state_def)
  then show ?thesis using assms by (simp add: wf_state_def)
qed

section \<open>Claims about the output\<close>

text \<open>
  Claim C5. Whenever the hook produces an output, the \<open>order\<close> values of its nodes,
  read in list order, are \<open>1, 2, ..., N\<close> for the \<open>N\<close> nodes of the run: a
  permutation of \<open>1..N\<close> without gap or repeat. The node sequence of the output is the
  list in which \<open>ensureNode\<close> created the nodes over all entries, so sorting by
  \<open>order\<close> changes nothing, and the one counter of the run ends at \<open>N + 1\<close>.
\<close>

theorem order_is_discovery_index:
  assumes "generateBundle H options (Some c) G = Some out"
  shows "map order_node (nodes_out out) = [1 ..< Suc (length (nodes_out out))] \<and>
         nodes_out out = nodes (runEntries (mkEnv H options c G) (entriesOf options)) \<and>
         orderCounter (runEntries (mkEnv H options c G) (entriesOf options))
           = Suc (length (nodes_out out))"
proof -
  let ?st = "runEntries (mkEnv H options c G) (entriesOf options)"
  have wf: "wf_state (mkEnv H options c G) ?st" by (rule wf_runEntries)
  have n: "nodes_out out = nodes ?st"
    using generateBundle_output [OF assms] by simp
  have c: "orderCounter ?st = Suc (length (nodes ?st))"
    using wf by (rule length_nodes_wf)
  have "map order_node (nodes ?st) = [1 ..< orderCounter ?st]"
    using wf by (simp add: wf_state_def)
  then have "map order_node (nodes_out out) = [1 ..< Suc (length (nodes_out out))]"
    unfolding n c .
  then show ?thesis using n c by (simp only: simp_thms)
qed

theorem order_is_discovery_index_witness:
  "generateBundle (posix ''/proj'') twoEntryOptions (Some exampleConfig) exampleGraph = Some twoEntryOutput \<and>
   map order_node (nodes_out twoEntryOutput) = [1, 2, 3, 4] \<and>
   map order_node (nodes_out twoEntryOutput) = [1 ..< Suc (length (nodes_out twoEntryOutput))] \<and>
   nodes_out twoEntryOutput
     = nodes (runEntries (mkEnv (posix ''/proj'') twoEntryOptions exampleConfig exampleGraph)
                (entriesOf twoEntryOptions)) \<and>
   orderCounter (runEntries (mkEnv (posix ''/proj'') twoEntryOptions exampleConfig exampleGraph)
                (entriesOf twoEntryOptions)) = Suc (length (nodes_out twoEntryOutput))"
proof -
  have run: "generateBundle (posix ''/proj'') twoEntryOptions (Some exampleConfig) exampleGraph
               = Some twoEntryOutput"
    by code_simp
  have four: "map order_node (nodes_out twoEntryOutput) = [1, 2, 3, 4]"
    by (simp add: twoEntryOutput_def)
  show ?thesis
    using run four order_is_discovery_index [OF run] by blast
qed

lemma edgeKey_kind_differs: "edgeKey f t Static \<noteq> edgeKey f t Dynamic"
  by (simp add: edgeKey_def kindStr_def)

lemma addEdge_twins:
  assumes "edgeKey f t Static \<notin> edgeKeySet st" "edgeKey f t Dynamic \<notin> edgeKeySet st"
  shows "edges (addEdge f t Dynamic (addEdge f t Static st))
           = edges st @ [\<lparr>source = f, target = t, kind = Static\<rparr>,
                         \<lparr>source = f, target = t, kind = Dynamic\<rparr>]"
  using assms edgeKey_kind_differs [of f t]
  by (simp add: addEdge_def Let_def)

lemma distinct_edges_wf:
  assumes "wf_state E st"
  shows "distinct (edges st)"
  using assms distinct_map [of edgeKeyOf "edges st"] by (simp add: wf_state_def)

text \<open>
  No output has two nodes with the same id, two edges with the same
  (source, target, kind) triple, or two edges with the same key.
\<close>

lemma output_has_no_duplicates:
  assumes "generateBundle H options config G = Some out"
  shows "distinct (map id_node (nodes_out out))"
    and "distinct (edges_out out)"
    and "distinct (map edgeKeyOf (edges_out out))"
proof -
  from assms obtain c where c: "config = Some c" by (rule generateBundle_config)
  let ?st = "runEntries (mkEnv H options c G) (entriesOf options)"
  have wf: "wf_state (mkEnv H options c G) ?st" by (rule wf_runEntries)
  have out: "nodes_out out = nodes ?st" "edges_out out = edges ?st"
    using generateBundle_output [OF assms [unfolded c]] by simp_all
  show "distinct (map id_node (nodes_out out))" "distinct (map edgeKeyOf (edges_out out))"
    using wf out by (simp_all add: wf_state_def)
  show "distinct (edges_out out)"
    using distinct_edges_wf [OF wf] out by simp
qed

text \<open>
  Claim C4. The uniqueness of node ids and of edge triples holds for every output
  (\<open>output_has_no_duplicates\<close>), and the static and the dynamic edge between the same
  two ids never have the same key (\<open>edgeKey_kind_differs\<close>). They are not always both
  kept, though. The key is the text \<open>source|target|kind\<close>, and it does not tell the pair
  (\<open>a.ts|x.ts\<close>, \<open>b.ts\<close>) from the pair (\<open>a.ts\<close>, \<open>x.ts|b.ts\<close>). In \<open>twinDropGraph\<close>
  the module \<open>a.ts|x.ts\<close> imports \<open>b.ts\<close> both statically and dynamically, all four
  modules are supported and none is skipped; the static edge is in the output, but
  \<open>addEdge\<close> takes the dynamic one for the edge from \<open>a.ts\<close> to \<open>x.ts|b.ts\<close>, recorded
  earlier, and drops it.
\<close>

theorem twin_edge_dropped:
  "getModuleInfo (mkEnv (posix ''/proj'') twinDropOptions exampleConfig twinDropGraph)
       ''/proj/a.ts|x.ts''
     = Some \<lparr>importedIds = [''/proj/b.ts''], dynamicallyImportedIds = [''/proj/b.ts'']\<rparr> \<and>
   hasSupportedExt (mkEnv (posix ''/proj'') twinDropOptions exampleConfig twinDropGraph)
       ''/proj/a.ts|x.ts'' \<and>
   hasSupportedExt (mkEnv (posix ''/proj'') twinDropOptions exampleConfig twinDropGraph)
       ''/proj/b.ts'' \<and>
   \<not> shouldSkip ''/proj/a.ts|x.ts'' \<and> \<not> shouldSkip ''/proj/b.ts'' \<and>
   edgeKey ''a.ts|x.ts'' ''b.ts'' Dynamic = edgeKey ''a.ts'' ''x.ts|b.ts'' Dynamic \<and>
   generateBundle (posix ''/proj'') twinDropOptions (Some exampleConfig) twinDropGraph
     = Some \<lparr>nodes_out = [\<lparr>id_node = ''a.ts'', order_node = 1\<rparr>,
                          \<lparr>id_node = ''x.ts|b.ts'', order_node = 2\<rparr>,
                          \<lparr>id_node = ''a.ts|x.ts'', order_node = 3\<rparr>,
                          \<lparr>id_node = ''b.ts'', order_node = 4\<rparr>],
             edges_out = [\<lparr>source = ''a.ts'', target = ''x.ts|b.ts'', kind = Dynamic\<rparr>,
                          \<lparr>source = ''a.ts'', target = ''a.ts|x.ts'', kind = Dynamic\<rparr>,
                          \<lparr>source = ''a.ts|x.ts'', target = ''b.ts'', kind = Static\<rparr>],
             entries_out = [''a.ts'']\<rparr> \<and>
   \<lparr>source = ''a.ts|x.ts'', target = ''b.ts'', kind = Dynamic\<rparr>
     \<notin> set [\<lparr>source = ''a.ts'', target = ''x.ts|b.ts'', kind = Dynamic\<rparr>,
             \<lparr>source = ''a.ts'', target = ''a.ts|x.ts'', kind = Dynamic\<rparr>,
             \<lparr>source = ''a.ts|x.ts'', target = ''b.ts'', kind = Static\<rparr>]"
  by code_simp

text \<open>
  Claim C2. The example of section 8 of the specification, on a POSIX host with project
  root \<open>/proj\<close> and the default extensions: the nodes are \<open>src/main.ts\<close> (1),
  \<open>src/a.ts\<close> (2) and \<open>src/b.ts\<close> (3), the entries are \<open>[src/main.ts]\<close>, and the
  edges are exactly the three of the example. The edge list is in creation order: the
  walk enters \<open>a.ts\<close> and records its edge back to \<open>main.ts\<close> before it reaches the
  dynamic imports of \<open>main.ts\<close>.
\<close>

theorem spec_example_output:
  "generateBundle (posix ''/proj'')
     \<lparr>entries = Some [''/proj/src/main.ts''], outputFile = None, extensions = None\<rparr>
     (Some \<lparr>config_root = ''/proj'', config_outDir = ''dist''\<rparr>)
     [(''/proj/src/main.ts'',
         \<lparr>importedIds = [''/proj/src/a.ts''], dynamicallyImportedIds = [''/proj/src/b.ts'']\<rparr>),
      (''/proj/src/a.ts'',
         \<lparr>importedIds = [''/proj/src/main.ts''], dynamicallyImportedIds = []\<rparr>)]
   = Some \<lparr>nodes_out = [\<lparr>id_node = ''src/main.ts'', order_node = 1\<rparr>,
                        \<lparr>id_node = ''src/a.ts'', order_node = 2\<rparr>,
                        \<lparr>id_node = ''src/b.ts'', order_node = 3\<rparr>],
           edges_out = [\<lparr>source = ''src/main.ts'', target = ''src/a.ts'', kind = Static\<rparr>,
                        \<lparr>source = ''src/a.ts'', target = ''src/main.ts'', kind = Static\<rparr>,
                        \<lparr>source = ''src/main.ts'', target = ''src/b.ts'', kind = Dynamic\<rparr>],
           entries_out = [''src/main.ts'']\<rparr>
   \<and> set [\<lparr>source = ''src/main.ts'', target = ''src/a.ts'', kind = Static\<rparr>,
           \<lparr>source = ''src/a.ts'', target = ''src/main.ts'', kind = Static\<rparr>,
           \<lparr>source = ''src/main.ts'', target = ''src/b.ts'', kind = Dynamic\<rparr>]
     = {\<lparr>source = ''src/main.ts'', target = ''src/a.ts'', kind = Static\<rparr>,
        \<lparr>source = ''src/main.ts'', target = ''src/b.ts'', kind = Dynamic\<rparr>,
        \<lparr>source = ''src/a.ts'', target = ''src/main.ts'', kind = Static\<rparr>}"
proof
  show "generateBundle (posix ''/proj'')
     \<lparr>entries = Some [''/proj/src/main.ts''], outputFile = None, extensions = None\<rparr>
     (Some \<lparr>config_root = ''/proj'', config_outDir = ''dist''\<rparr>)
     [(''/proj/src/main.ts'',
         \<lparr>importedIds = [''/proj/src/a.ts''], dynamicallyImportedIds = [''/proj/src/b.ts'']\<rparr>),
      (''/proj/src/a.ts'',
         \<lparr>importedIds = [''/proj/src/main.ts''], dynamicallyImportedIds = []\<rparr>)]
   = Some \<lparr>nodes_out = [\<lparr>id_node = ''src/main.ts'', order_node = 1\<rparr>,
                        \<lparr>id_node = ''src/a.ts'', order_node = 2\<rparr>,
                        \<lparr>id_node = ''src/b.ts'', order_node = 3\<rparr>],
           edges_out = [\<lparr>source = ''src/main.ts'', target = ''src/a.ts'', kind = Static\<rparr>,
                        \<lparr>source = ''src/a.ts'', target = ''src/main.ts'', kind = Static\<rparr>,
                        \<lparr>source = ''src/main.ts'', target = ''src/b.ts'', kind = Dynamic\<rparr>],
           entries_out = [''src/main.ts'']\<rparr>"
    by code_simp
  show "set [\<lparr>source = ''src/main.ts'', target = ''src/a.ts'', kind = Static\<rparr>,
           \<lparr>source = ''src/a.ts'', target = ''src/main.ts'', kind = Static\<rparr>,
           \<lparr>source = ''src/main.ts'', target = ''src/b.ts'', kind = Dynamic\<rparr>]
     = {\<lparr>source = ''src/main.ts'', target = ''src/a.ts'', kind = Static\<rparr>,
        \<lparr>source = ''src/main.ts'', target = ''src/b.ts'', kind = Dynamic\<rparr>,
        \<lparr>source = ''src/a.ts'', target = ''src/main.ts'', kind = Static\<rparr>}"
    by auto
qed

lemma recordDep_registers:
  assumes "wf_state E st" "hasSupportedExt E dep"
  shows "toRel E dep \<in> nodeIds (recordDep E k i dep st)"
proof (cases "nodeIdToOrder st (toRel E dep)")
  case None
  then show ?thesis
    using assms toRel_in_ensureNode(1) [OF assms(1), of dep]
    by (simp add: recordDep_def Let_def)
next
  case (Some n)
  then show ?thesis
    using assms registered_when_mapped [OF assms(1) Some]
    by (simp add: recordDep_def Let_def)
qed

lemma recordDep_unsupported_source:
  assumes "\<not> hasSupportedExt E i"
  shows "edges (recordDep E k i dep st) = edges st"
  using assms by (simp add: recordDep_def Let_def)

lemma traverse_deps_registers_head:
  assumes wf: "wf_state E st" and src: "hasSupportedExt E i \<longrightarrow> toRel E i \<in> nodeIds st"
    and "\<not> shouldSkip dep" "hasSupportedExt E dep"
  shows "toRel E dep \<in> nodeIds (traverse_deps E k i (dep # deps) st)"
proof -
  let ?st1 = "recordDep E k i dep st"
  have wf1: "wf_state E ?st1" using wf src by (rule wf_recordDep)
  have in1: "toRel E dep \<in> nodeIds ?st1" using wf assms(4) by (rule recordDep_registers)
  have src1: "hasSupportedExt E i \<longrightarrow> toRel E i \<in> nodeIds ?st1"
    using src nodeIds_recordDep [OF wf] by blast
  show ?thesis
  proof (cases "dep \<in> visited ?st1")
    case True
    then show ?thesis
      using assms(3) in1 wf_walk(2) [OF wf1 src1, of k deps] by auto
  next
    case False
    let ?st2 = "traverse E dep (markVisited dep ?st1)"
    have s2: "wf_state E ?st2 \<and> nodeIds ?st1 \<subseteq> nodeIds ?st2"
      using wf_walk(1) [of E "markVisited dep ?st1" dep] wf1 by simp
    then have "hasSupportedExt E i \<longrightarrow> toRel E i \<in> nodeIds ?st2" using src1 by blast
    with s2 have "nodeIds ?st2 \<subseteq> nodeIds (traverse_deps E k i deps ?st2)"
      using wf_walk(2) [of E ?st2 i k deps] by blast
    then show ?thesis using assms(3) False in1 s2 by auto
  qed
qed

text \<open>
  Claim C3, as the specification states it, fails in its second part: a dependency with
  a supported extension is not registered when the skip policy matches it, whatever its
  source is. In \<open>cssSkipGraph\<close> the style sheet has no supported extension, its import
  \<open>index.js\<close> has one, and the output has no node at all.
\<close>

theorem skipped_dependency_not_registered:
  "\<not> hasSupportedExt (mkEnv (posix ''/proj'') cssOptions exampleConfig cssSkipGraph)
       ''/proj/src/style.css'' \<and>
   hasSupportedExt (mkEnv (posix ''/proj'') cssOptions exampleConfig cssSkipGraph)
       ''/proj/node_modules/lib/index.js'' \<and>
   getModuleInfo (mkEnv (posix ''/proj'') cssOptions exampleConfig cssSkipGraph)
       ''/proj/src/style.css''
     = Some \<lparr>importedIds = [''/proj/node_modules/lib/index.js''], dynamicallyImportedIds = []\<rparr> \<and>
   shouldSkip ''/proj/node_modules/lib/index.js'' \<and>
   generateBundle (posix ''/proj'') cssOptions (Some exampleConfig) cssSkipGraph
     = Some \<lparr>nodes_out = [], edges_out = [], entries_out = []\<rparr>"
  by code_simp

text \<open>
  Claim C3, amended. Whenever the hook produces an output, every edge of it joins two ids
  that are nodes of the output, and each of the two is the canonical id of an identifier
  that passed the extension filter. In the loop over the dependencies of an identifier
  \<open>i\<close> without a supported extension, started in a well-formed state (as every state
  of a run is, by \<open>wf_walk\<close> and \<open>wf_runEntries\<close>), a dependency that is not skipped
  and has a supported extension is a node once the loop is done, and the bookkeeping for
  it records no edge.
\<close>

theorem edges_join_supported_nodes:
  assumes "generateBundle H options (Some c) G = Some out"
  shows "(\<forall>e \<in> set (edges_out out).
            source e \<in> id_node ` set (nodes_out out) \<and>
            target e \<in> id_node ` set (nodes_out out) \<and>
            (\<exists>s. hasSupportedExt (mkEnv H options c G) s \<and> toRel (mkEnv H options c G) s = source e) \<and>
            (\<exists>d. hasSupportedExt (mkEnv H options c G) d \<and> toRel (mkEnv H options c G) d = target e)) \<and>
         (wf_state E st \<and> \<not> shouldSkip dep \<and> hasSupportedExt E dep \<and> \<not> hasSupportedExt E i \<longrightarrow>
            toRel E dep \<in> id_node ` set (nodes (traverse_deps E k i (dep # deps) st)) \<and>
            edges (recordDep E k i dep st) = edges st)"
proof -
  let ?E = "mkEnv H options c G"
  let ?st = "runEntries ?E (entriesOf options)"
  have wf: "wf_state ?E ?st" by (rule wf_runEntries)
  have out: "nodes_out out = nodes ?st" "edges_out out = edges ?st"
    using generateBundle_output [OF assms] by simp_all
  have "\<forall>e \<in> set (edges ?st).
          source e \<in> nodeIds ?st \<and> target e \<in> nodeIds ?st \<and>
          supportedRel ?E (source e) \<and> supportedRel ?E (target e)"
    using wf by (simp add: wf_state_def)
  then have first: "\<forall>e \<in> set (edges_out out).
            source e \<in> id_node ` set (nodes_out out) \<and>
            target e \<in> id_node ` set (nodes_out out) \<and>
            (\<exists>s. hasSupportedExt ?E s \<and> toRel ?E s = source e) \<and>
            (\<exists>d. hasSupportedExt ?E d \<and> toRel ?E d = target e)"
    unfolding out by (simp add: nodeIds_def supportedRel_def)
  have second: "toRel E dep \<in> id_node ` set (nodes (traverse_deps E k i (dep # deps) st)) \<and>
            edges (recordDep E k i dep st) = edges st"
    if "wf_state E st" "\<not> shouldSkip dep" "hasSupportedExt E dep" "\<not> hasSupportedExt E i"
    using traverse_deps_registers_head [of E st i dep k deps] recordDep_unsupported_source [of E i k dep st] that
    by (simp add: nodeIds_def)
  from first second show ?thesis by blast
qed

theorem edges_join_supported_nodes_witness:
  "generateBundle (posix ''/proj'') exampleOptions (Some exampleConfig) exampleGraph = Some exampleOutput \<and>
   set (edges_out exampleOutput) \<noteq> {} \<and>
   wf_state (mkEnv (posix ''/proj'') cssOptions exampleConfig cssGraph) initState \<and>
   \<not> shouldSkip ''/proj/src/a.ts'' \<and>
   hasSupportedExt (mkEnv (posix ''/proj'') cssOptions exampleConfig cssGraph) ''/proj/src/a.ts'' \<and>
   \<not> hasSupportedExt (mkEnv (posix ''/proj'') cssOptions exampleConfig cssGraph) ''/proj/src/style.css'' \<and>
   \<lparr>source = ''src/a.ts'', target = ''src/main.ts'', kind = Static\<rparr> \<in> set (edges_out exampleOutput) \<and>
   ''src/a.ts'' \<in> id_node ` set (nodes_out exampleOutput) \<and>
   ''src/main.ts'' \<in> id_node ` set (nodes_out exampleOutput) \<and>
   toRel (mkEnv (posix ''/proj'') cssOptions exampleConfig cssGraph) ''/proj/src/a.ts''
     \<in> id_node ` set (nodes (traverse_deps (mkEnv (posix ''/proj'') cssOptions exampleConfig cssGraph)
                                 Static ''/proj/src/style.css'' [''/proj/src/a.ts''] initState)) \<and>
   edges (recordDep (mkEnv (posix ''/proj'') cssOptions exampleConfig cssGraph)
            Static ''/proj/src/style.css'' ''/proj/src/a.ts'' initState) = edges initState"
proof -
  let ?E = "mkEnv (posix ''/proj'') cssOptions exampleConfig cssGraph"
  have run: "generateBundle (posix ''/proj'') exampleOptions (Some exampleConfig) exampleGraph
               = Some exampleOutput"
    by code_simp
  have ne: "set (edges_out exampleOutput) \<noteq> {}" by (simp add: exampleOutput_def)
  have e: "\<lparr>source = ''src/a.ts'', target = ''src/main.ts'', kind = Static\<rparr>
             \<in> set (edges_out exampleOutput)"
    by (simp add: exampleOutput_def)
  have wf: "wf_state ?E initState" by (rule wf_initState)
  have a: "\<not> shouldSkip ''/proj/src/a.ts''" by code_simp
  have b: "hasSupportedExt ?E ''/proj/src/a.ts''" by code_simp
  have c: "\<not> hasSupportedExt ?E ''/proj/src/style.css''" by code_simp
  note inst = edges_join_supported_nodes [OF run, of ?E initState "''/proj/src/a.ts''"
        "''/proj/src/style.css''" Static "[]"]
  have "source \<lparr>source = ''src/a.ts'', target = ''src/main.ts'', kind = Static\<rparr>
          \<in> id_node ` set (nodes_out exampleOutput)"
    and "target \<lparr>source = ''src/a.ts'', target = ''src/main.ts'', kind = Static\<rparr>
          \<in> id_node ` set (nodes_out exampleOutput)"
    using inst e by blast+
  then have ends: "''src/a.ts'' \<in> id_node ` set (nodes_out exampleOutput)"
    "''src/main.ts'' \<in> id_node ` set (nodes_out exampleOutput)"
    by simp_all
  show ?thesis
    using run ne wf a b c e ends inst by blast
qed

text \<open>
  Claim C8. When the host knows nothing about an identifier, the walk on it does the
  registration step and nothing else: it returns without looking at any dependency, so no
  edge is added and \<open>visited\<close> is unchanged. The identifier becomes the next node, with
  the current value of the counter, exactly when it has a supported extension and its
  canonical id is not registered yet; otherwise the state is returned as it is.
\<close>

theorem unknown_module_is_leaf:
  assumes "getModuleInfo E i = None"
  shows "edges (traverse E i st) = edges st \<and>
         visited (traverse E i st) = visited st \<and>
         (hasSupportedExt E i \<and> nodeIdToOrder st (toRel E i) = None \<longrightarrow>
            traverse E i st = snd (ensureNode E i st) \<and>
            nodes (traverse E i st)
              = nodes st @ [\<lparr>id_node = toRel E i, order_node = orderCounter st\<rparr>]) \<and>
         (\<not> (hasSupportedExt E i \<and> nodeIdToOrder st (toRel E i) = None) \<longrightarrow>
            traverse E i st = st)"
  using assms
  by (simp add: traverse.simps registerSelf_def ensureNode_def Let_def)

theorem unknown_module_is_leaf_witness:
  "getModuleInfo (mkEnv (posix ''/proj'') exampleOptions exampleConfig exampleGraph) ''/proj/src/b.ts'' = None \<and>
   hasSupportedExt (mkEnv (posix ''/proj'') exampleOptions exampleConfig exampleGraph) ''/proj/src/b.ts'' \<and>
   nodeIdToOrder initState
     (toRel (mkEnv (posix ''/proj'') exampleOptions exampleConfig exampleGraph) ''/proj/src/b.ts'') = None \<and>
   \<not> hasSupportedExt (mkEnv (posix ''/proj'') exampleOptions exampleConfig exampleGraph) ''/proj/src/b.css'' \<and>
   nodes (traverse (mkEnv (posix ''/proj'') exampleOptions exampleConfig exampleGraph) ''/proj/src/b.ts'' initState)
     = [\<lparr>id_node = ''src/b.ts'', order_node = 1\<rparr>] \<and>
   edges (traverse (mkEnv (posix ''/proj'') exampleOptions exampleConfig exampleGraph) ''/proj/src/b.ts'' initState)
     = [] \<and>
   traverse (mkEnv (posix ''/proj'') exampleOptions exampleConfig exampleGraph) ''/proj/src/b.css'' initState
     = initState"
proof -
  let ?E = "mkEnv (posix ''/proj'') exampleOptions exampleConfig exampleGraph"
  have u: "getModuleInfo ?E ''/proj/src/b.ts'' = None" by code_simp
  have u': "getModuleInfo ?E ''/proj/src/b.css'' = None" by code_simp
  have s: "hasSupportedExt ?E ''/proj/src/b.ts''" by code_simp
  have s': "\<not> hasSupportedExt ?E ''/proj/src/b.css''" by code_simp
  have r: "toRel ?E ''/proj/src/b.ts'' = ''src/b.ts''" by code_simp
  have n: "nodeIdToOrder initState (toRel ?E ''/proj/src/b.ts'') = None"
    by (simp add: initState_def)
  have i: "nodes initState = []" "edges initState = []" "orderCounter initState = 1"
    by (simp_all add: initState_def)
  have "nodes (traverse ?E ''/proj/src/b.ts'' initState)
          = nodes initState @ [\<lparr>id_node = toRel ?E ''/proj/src/b.ts'',
                                  order_node = orderCounter initState\<rparr>]"
    and "edges (traverse ?E ''/proj/src/b.ts'' initState) = edges initState"
    using unknown_module_is_leaf [OF u, of initState] s n by blast+
  then have t: "nodes (traverse ?E ''/proj/src/b.ts'' initState)
                  = [\<lparr>id_node = ''src/b.ts'', order_node = 1\<rparr>]"
    "edges (traverse ?E ''/proj/src/b.ts'' initState) = []"
    by (simp_all only: r i append_Nil)
  have t': "traverse ?E ''/proj/src/b.css'' initState = initState"
    using unknown_module_is_leaf [OF u', of initState] s' by blast
  show ?thesis
    using u s s' n t t' by blast
qed

section \<open>Configuration and the skip policy\<close>

lemma normalizeExt_nonempty: "normalizeExt H e \<noteq> []"
  by (simp add: normalizeExt_def Let_def startsWith_def) (metis list.discI take_eq_Nil)

text \<open>
  Claim C10. When the \<open>extensions\<close> option is absent, is not an array or is the empty
  array, the configured suffixes are the five defaults \<open>.js\<close>, \<open>.jsx\<close>, \<open>.ts\<close>,
  \<open>.tsx\<close>, \<open>.vue\<close>. The configured list is never empty, whatever the options are, and
  neither is the set of supported extensions that the hook builds from it.
\<close>

theorem empty_extensions_fall_back:
  "(extensions options = None \<or> extensions options = Some [] \<longrightarrow>
      configuredExts H options = [''.js'', ''.jsx'', ''.ts'', ''.tsx'', ''.vue'']) \<and>
   configuredExts H options \<noteq> [] \<and>
   set (supportedExts (mkEnv H options c G)) \<noteq> {}"
proof -
  have a: "configuredExts H options = [''.js'', ''.jsx'', ''.ts'', ''.tsx'', ''.vue'']"
    if "extensions options = None \<or> extensions options = Some []"
    using that by (auto simp: configuredExts_def defaultExts_def)
  have b: "configuredExts H options \<noteq> []"
    by (auto simp: configuredExts_def defaultExts_def split: option.splits)
  then have "set (supportedExts (mkEnv H options c G)) \<noteq> {}"
    by (simp add: mkEnv_def)
  with a b show ?thesis by blast
qed

theorem empty_extensions_fall_back_witness:
  "extensions \<lparr>entries = Some [''/proj/src/main.ts''], outputFile = None, extensions = Some []\<rparr> = Some [] \<and>
   configuredExts (posix ''/proj'')
     \<lparr>entries = Some [''/proj/src/main.ts''], outputFile = None, extensions = Some []\<rparr>
     = [''.js'', ''.jsx'', ''.ts'', ''.tsx'', ''.vue''] \<and>
   hasSupportedExt
     (mkEnv (posix ''/proj'')
        \<lparr>entries = Some [''/proj/src/main.ts''], outputFile = None, extensions = Some []\<rparr>
        exampleConfig exampleGraph)
     ''/proj/src/main.ts''"
proof -
  let ?o = "\<lparr>entries = Some [''/proj/src/main.ts''], outputFile = None, extensions = Some []\<rparr>"
  have e: "extensions ?o = Some []" by simp
  have s: "hasSupportedExt (mkEnv (posix ''/proj'') ?o exampleConfig exampleGraph) ''/proj/src/main.ts''"
    by code_simp
  show ?thesis
    using e s empty_extensions_fall_back [of ?o] by blast
qed

lemma startsWith_iff: "startsWith s p \<longleftrightarrow> (\<exists>t. s = p @ t)"
proof
  assume "startsWith s p"
  then have "s = p @ drop (length p) s"
    by (metis append_take_drop_id startsWith_def)
  then show "\<exists>t. s = p @ t" ..
next
  assume "\<exists>t. s = p @ t"
  then show "startsWith s p" by (auto simp: startsWith_def)
qed

lemma includesStr_iff: "includesStr s sub \<longleftrightarrow> (\<exists>p t. s = p @ sub @ t)"
proof (induction s)
  case Nil
  then show ?case by auto
next
  case (Cons c cs)
  show ?case
  proof
    assume "includesStr (c # cs) sub"
    then consider "startsWith (c # cs) sub" | "includesStr cs sub" by auto
    then show "\<exists>p t. c # cs = p @ sub @ t"
    proof cases
      case 1
      then obtain t where "c # cs = sub @ t" by (auto simp: startsWith_iff)
      then have "c # cs = [] @ sub @ t" by simp
      then show ?thesis by blast
    next
      case 2
      then obtain p t where "cs = p @ sub @ t" using Cons.IH by blast
      then have "c # cs = (c # p) @ sub @ t" by simp
      then show ?thesis by blast
    qed
  next
    assume "\<exists>p t. c # cs = p @ sub @ t"
    then obtain p t where pt: "c # cs = p @ sub @ t" by blast
    show "includesStr (c # cs) sub"
    proof (cases p)
      case Nil
      then have "startsWith (c # cs) sub" using pt by (auto simp: startsWith_iff)
      then show ?thesis by simp
    next
      case (Cons a p')
      then have "cs = p' @ sub @ t" using pt by simp
      then have "includesStr cs sub" using Cons.IH by blast
      then show ?thesis by simp
    qed
  qed
qed

lemma splitOn_nonempty: "splitOn c s \<noteq> []"
  by (induction s) (auto split: list.splits)

lemma splitOn_first:
  "splitOn c s = w # ws \<Longrightarrow> \<exists>t. s = w @ t"
proof (induction s arbitrary: w ws)
  case Nil
  then show ?case by simp
next
  case (Cons x xs)
  show ?case
  proof (cases "x = c")
    case True
    then show ?thesis using Cons.prems by auto
  next
    case False
    obtain w' ws' where sp: "splitOn c xs = w' # ws'"
      using splitOn_nonempty [of c xs] by (cases "splitOn c xs") auto
    then obtain t where "xs = w' @ t" using Cons.IH by blast
    moreover have "w = x # w'" using Cons.prems False sp by simp
    ultimately have "x # xs = w @ t" by simp
    then show ?thesis ..
  qed
qed

lemma splitOn_segment:
  "seg \<in> set (splitOn c s) \<Longrightarrow> \<exists>p t. s = p @ seg @ t"
proof (induction s arbitrary: seg)
  case Nil
  then show ?case by simp
next
  case (Cons x xs)
  obtain w ws where sp: "splitOn c xs = w # ws"
    using splitOn_nonempty [of c xs] by (cases "splitOn c xs") auto
  have tail: "\<exists>p t. x # xs = p @ seg @ t" if "seg \<in> set (splitOn c xs)"
  proof -
    from that obtain p t where "xs = p @ seg @ t" using Cons.IH by blast
    then have "x # xs = (x # p) @ seg @ t" by simp
    then show ?thesis by blast
  qed
  show ?case
  proof (cases "x = c")
    case True
    then consider "seg = []" | "seg \<in> set (splitOn c xs)" using Cons.prems by auto
    then show ?thesis
    proof cases
      case 1
      then have "x # xs = [] @ seg @ (x # xs)" by simp
      then show ?thesis by blast
    next
      case 2
      then show ?thesis by (rule tail)
    qed
  next
    case False
    then consider "seg = x # w" | "seg \<in> set ws" using Cons.prems sp by auto
    then show ?thesis
    proof cases
      case 1
      obtain t where "xs = w @ t" using splitOn_first [OF sp] by blast
      then have "x # xs = [] @ seg @ t" using 1 by simp
      then show ?thesis by blast
    next
      case 2
      then have "seg \<in> set (splitOn c xs)" using sp by simp
      then show ?thesis by (rule tail)
    qed
  qed
qed

text \<open>
  Claim C7, as the specification states it, fails: the source tests for the text
  \<open>node_modules\<close> anywhere in the identifier, so a file whose name merely contains it
  is skipped although no path segment is a \<open>node_modules\<close> directory.
\<close>

theorem skip_is_not_by_segment:
  "shouldSkip ''/proj/src/node_modules_list.ts'' \<and>
   \<not> mustSkip_spec ''/proj/src/node_modules_list.ts''"
  by code_simp

text \<open>
  Claim C7, amended. \<open>shouldSkip\<close> is true exactly for the empty identifier, for an
  identifier that contains the text \<open>node_modules\<close> at any position, and for an
  identifier whose first character is the NUL character; it is false for every other
  identifier. Every identifier that the specification's wording skips is skipped.
\<close>

theorem shouldSkip_characterisation:
  "(shouldSkip i \<longleftrightarrow>
      i = [] \<or> (\<exists>p t. i = p @ ''node_modules'' @ t) \<or> (\<exists>t. i = CHR 0x00 # t)) \<and>
   (mustSkip_spec i \<longrightarrow> shouldSkip i)"
proof -
  have code: "shouldSkip i \<longleftrightarrow>
      i = [] \<or> (\<exists>p t. i = p @ ''node_modules'' @ t) \<or> (\<exists>t. i = CHR 0x00 # t)"
    by (simp add: shouldSkip_def includesStr_iff startsWith_iff)
  have "shouldSkip i" if "mustSkip_spec i"
  proof -
    from that consider "i = []" | "''node_modules'' \<in> set (splitOn CHR ''/'' i)"
      | "startsWith i [CHR 0x00]"
      by (auto simp: mustSkip_spec_def)
    then show ?thesis
    proof cases
      case 1
      then show ?thesis by (simp add: shouldSkip_def)
    next
      case 2
      then have "\<exists>p t. i = p @ ''node_modules'' @ t" by (rule splitOn_segment)
      then show ?thesis using code by blast
    next
      case 3
      then show ?thesis using code by (auto simp: startsWith_iff)
    qed
  qed
  with code show ?thesis by blast
qed

theorem shouldSkip_characterisation_witness:
  "mustSkip_spec ''/proj/node_modules/lib/index.js'' \<and>
   shouldSkip ''/proj/node_modules/lib/index.js'' \<and>
   shouldSkip [] \<and> shouldSkip [CHR 0x00, CHR ''x''] \<and>
   \<not> shouldSkip ''/proj/src/main.ts''"
proof -
  have m: "mustSkip_spec ''/proj/node_modules/lib/index.js''" by code_simp
  have n: "\<not> shouldSkip ''/proj/src/main.ts''" by code_simp
  have e: "shouldSkip []" "shouldSkip [CHR 0x00, CHR ''x'']"
    using shouldSkip_characterisation [of "[]"]
      shouldSkip_characterisation [of "[CHR 0x00, CHR ''x'']"] by simp_all
  show ?thesis
    using m n e shouldSkip_characterisation [of "''/proj/node_modules/lib/index.js''"] by blast
qed

section \<open>What the walk reads of the module graph\<close>

lemma toRel_cong_env:
  assumes "sameReading E' E"
  shows "toRel E' x = toRel E x"
  using assms by (simp add: toRel_def sameReading_def)

lemma hasSupportedExt_cong_env:
  assumes "sameReading E' E"
  shows "hasSupportedExt E' x = hasSupportedExt E x"
  using assms by (simp add: hasSupportedExt_def sameReading_def)

lemma ensureNode_cong_env:
  assumes "sameReading E' E"
  shows "ensureNode E' x st = ensureNode E x st"
  using toRel_cong_env [OF assms] by (simp add: ensureNode_def)

lemma registerSelf_cong_env:
  assumes "sameReading E' E"
  shows "registerSelf E' x st = registerSelf E x st"
  using toRel_cong_env [OF assms] hasSupportedExt_cong_env [OF assms]
    ensureNode_cong_env [OF assms]
  by (simp add: registerSelf_def)

lemma recordDep_cong_env:
  assumes "sameReading E' E"
  shows "recordDep E' k i dep st = recordDep E k i dep st"
  unfolding recordDep_def toRel_cong_env [OF assms] hasSupportedExt_cong_env [OF assms]
    ensureNode_cong_env [OF assms]
  by (rule refl)

text \<open>
  Two environments that read alike, and whose module tables answer alike for every
  identifier that is not skipped, give the same walk.
\<close>

lemma walk_cong_env:
  "sameReading E' E \<Longrightarrow>
   (\<forall>x. \<not> shouldSkip x \<longrightarrow> getModuleInfo E' x = getModuleInfo E x) \<Longrightarrow>
   getModuleInfo E' i = getModuleInfo E i \<Longrightarrow>
     traverse E' i st = traverse E i st"
  "sameReading E' E \<Longrightarrow>
   (\<forall>x. \<not> shouldSkip x \<longrightarrow> getModuleInfo E' x = getModuleInfo E x) \<Longrightarrow>
     traverse_deps E' k i deps st = traverse_deps E k i deps st"
proof (induction E i st and E k i deps st rule: traverse_traverse_deps.induct)
  case (1 E i st)
  note same = "1.prems"(1) and agree = "1.prems"(2) and here = "1.prems"(3)
  have reg: "registerSelf E' i st = registerSelf E i st"
    using same by (rule registerSelf_cong_env)
  show ?case
  proof (cases "getModuleInfo E i")
    case None
    then show ?thesis using here reg by (simp add: traverse.simps)
  next
    case (Some info)
    have s: "traverse_deps E' Static i (importedIds info) (registerSelf E i st)
           = traverse_deps E Static i (importedIds info) (registerSelf E i st)"
      using "1.IH"(1) [OF Some same agree] .
    have d: "traverse_deps E' Dynamic i (dynamicallyImportedIds info)
               (traverse_deps E Static i (importedIds info) (registerSelf E i st))
           = traverse_deps E Dynamic i (dynamicallyImportedIds info)
               (traverse_deps E Static i (importedIds info) (registerSelf E i st))"
      using "1.IH"(2) [OF Some same agree] .
    show ?thesis
      using Some here reg s d by (simp add: traverse.simps)
  qed
next
  case (2 E k i st)
  show ?case by simp
next
  case (3 E k i dep deps st)
  note same = "3.prems"(1) and agree = "3.prems"(2)
  have rec: "recordDep E' k i dep st = recordDep E k i dep st"
    using same by (rule recordDep_cong_env)
  show ?case
  proof (cases "shouldSkip dep")
    case True
    then show ?thesis using "3.IH"(1) [OF True same agree] by simp
  next
    case False
    then have info: "getModuleInfo E' dep = getModuleInfo E dep" using agree by blast
    show ?thesis
    proof (cases "dep \<in> visited (recordDep E k i dep st)")
      case True
      then show ?thesis
        using False rec "3.IH"(4) [OF False _ same agree] by simp
    next
      case nv: False
      have t: "traverse E' dep (markVisited dep (recordDep E k i dep st))
             = traverse E dep (markVisited dep (recordDep E k i dep st))"
        using "3.IH"(2) [OF False nv same agree info] .
      have r: "traverse_deps E' k i deps (traverse E dep (markVisited dep (recordDep E k i dep st)))
             = traverse_deps E k i deps (traverse E dep (markVisited dep (recordDep E k i dep st)))"
        using "3.IH"(3) [OF False nv same agree] .
      show ?thesis using False nv rec t r by simp
    qed
  qed
qed







text \<open>
  Claim C1, as the specification states it, fails: a skipped dependency is not entered.
  In \<open>skipGraph\<close> the entry imports a package under \<open>node_modules\<close>, whose own import
  \<open>hidden.ts\<close> is neither skipped nor unsupported. The output has the entry as its only
  node: \<open>hidden.ts\<close> was never reached, although a walk into the package would have
  registered it.
\<close>

theorem skipped_dependency_not_entered:
  "shouldSkip ''/proj/node_modules/lib/index.js'' \<and>
   getModuleInfo (mkEnv (posix ''/proj'') exampleOptions exampleConfig skipGraph)
       ''/proj/node_modules/lib/index.js''
     = Some \<lparr>importedIds = [''/proj/src/hidden.ts''], dynamicallyImportedIds = []\<rparr> \<and>
   \<not> shouldSkip ''/proj/src/hidden.ts'' \<and>
   hasSupportedExt (mkEnv (posix ''/proj'') exampleOptions exampleConfig skipGraph)
       ''/proj/src/hidden.ts'' \<and>
   generateBundle (posix ''/proj'') exampleOptions (Some exampleConfig) skipGraph
     = Some \<lparr>nodes_out = [\<lparr>id_node = ''src/main.ts'', order_node = 1\<rparr>],
             edges_out = [],
             entries_out = [''src/main.ts'']\<rparr> \<and>
   ''src/hidden.ts'' \<in> id_node ` set (nodes
       (traverse (mkEnv (posix ''/proj'') exampleOptions exampleConfig skipGraph)
          ''/proj/node_modules/lib/index.js'' initState))"
  by code_simp

text \<open>
  Claim C1, amended. For a dependency that the skip policy matches, the loop records no
  node and no edge and does not enter it: the iteration leaves the whole builder state,
  \<open>visited\<close> included, as it was. Hence the walk over a dependency list never reads what
  the module table says about a skipped identifier: two tables that agree on every
  identifier that is not skipped give the same result.
\<close>

theorem skipped_dependency_stops_walk:
  "(shouldSkip dep \<longrightarrow> traverse_deps E k i (dep # deps) st = traverse_deps E k i deps st) \<and>
   ((\<forall>x. \<not> shouldSkip x \<longrightarrow> map_of G x = map_of G' x) \<longrightarrow>
      traverse_deps (E\<lparr>graph := G\<rparr>) k i deps st = traverse_deps (E\<lparr>graph := G'\<rparr>) k i deps st)"
proof -
  have "traverse_deps (E\<lparr>graph := G\<rparr>) k i deps st = traverse_deps (E\<lparr>graph := G'\<rparr>) k i deps st"
    if "\<forall>x. \<not> shouldSkip x \<longrightarrow> map_of G x = map_of G' x"
    using that by (intro walk_cong_env(2)) (simp_all add: getModuleInfo_def sameReading_def)
  then show ?thesis by simp
qed

theorem skipped_dependency_stops_walk_witness:
  "shouldSkip ''/proj/node_modules/lib/index.js'' \<and>
   traverse_deps (mkEnv (posix ''/proj'') exampleOptions exampleConfig skipGraph) Static
       ''/proj/src/main.ts'' [''/proj/node_modules/lib/index.js''] initState
     = initState \<and>
   map_of skipGraph ''/proj/node_modules/lib/index.js''
     \<noteq> map_of [(''/proj/src/main.ts'',
                   \<lparr>importedIds = [''/proj/node_modules/lib/index.js''],
                      dynamicallyImportedIds = []\<rparr>)] ''/proj/node_modules/lib/index.js'' \<and>
   traverse_deps (mkEnv (posix ''/proj'') exampleOptions exampleConfig skipGraph) Static
       ''/proj/src/main.ts'' [''/proj/node_modules/lib/index.js'', ''/proj/src/a.ts''] initState
     = traverse_deps
         (mkEnv (posix ''/proj'') exampleOptions exampleConfig skipGraph
            \<lparr>graph := [(''/proj/src/main.ts'',
                         \<lparr>importedIds = [''/proj/node_modules/lib/index.js''],
                            dynamicallyImportedIds = []\<rparr>)]\<rparr>) Static
       ''/proj/src/main.ts'' [''/proj/node_modules/lib/index.js'', ''/proj/src/a.ts''] initState"
proof -
  let ?E = "mkEnv (posix ''/proj'') exampleOptions exampleConfig skipGraph"
  let ?G' = "[(''/proj/src/main.ts'',
               \<lparr>importedIds = [''/proj/node_modules/lib/index.js''],
                  dynamicallyImportedIds = []\<rparr>)]"
  have sk: "shouldSkip ''/proj/node_modules/lib/index.js''" by code_simp
  have ne: "map_of skipGraph ''/proj/node_modules/lib/index.js''
              \<noteq> map_of ?G' ''/proj/node_modules/lib/index.js''"
    by (simp add: skipGraph_def)
  have agree: "\<forall>x. \<not> shouldSkip x \<longrightarrow> map_of skipGraph x = map_of ?G' x"
    using sk by (auto simp: skipGraph_def)
  have g: "?E\<lparr>graph := skipGraph\<rparr> = ?E" by (simp add: mkEnv_def)
  have one: "traverse_deps ?E Static ''/proj/src/main.ts''
               [''/proj/node_modules/lib/index.js''] initState = initState"
    using sk skipped_dependency_stops_walk
      [of "''/proj/node_modules/lib/index.js''" ?E Static "''/proj/src/main.ts''" "[]" initState]
    by simp
  have two: "traverse_deps (?E\<lparr>graph := skipGraph\<rparr>) Static ''/proj/src/main.ts''
               [''/proj/node_modules/lib/index.js'', ''/proj/src/a.ts''] initState
           = traverse_deps (?E\<lparr>graph := ?G'\<rparr>) Static ''/proj/src/main.ts''
               [''/proj/node_modules/lib/index.js'', ''/proj/src/a.ts''] initState"
    using agree skipped_dependency_stops_walk [of _ ?E Static "''/proj/src/main.ts''" _ initState skipGraph ?G']
    by blast
  show ?thesis
    using sk ne one two unfolding g by blast
qed

section \<open>Termination and cycles\<close>

lemma visited_mono:
  "visited st \<subseteq> visited (traverse E i st)"
  "visited st \<subseteq> visited (traverse_deps E k i deps st)"
  using visited_mono_partial walk_total by blast+

lemma visited_bound:
  "visited (traverse E i st) \<subseteq> visited st \<union> depIds (graph E)"
  "visited (traverse_deps E k i deps st) \<subseteq> visited st \<union> depIds (graph E) \<union> set deps"
proof (induction E i st and E k i deps st rule: traverse_traverse_deps.induct)
  case (1 E i st)
  show ?case
  proof (cases "getModuleInfo E i")
    case None
    then show ?thesis by (simp add: traverse.simps)
  next
    case (Some info)
    note d = deps_in_depIds [OF Some]
    from "1.IH"(1) [OF Some] "1.IH"(2) [OF Some] d show ?thesis
      using Some by (simp add: traverse.simps) blast
  qed
next
  case (2 E k i st)
  show ?case by simp
next
  case (3 E k i dep deps st)
  show ?case
  proof (cases "shouldSkip dep")
    case True
    then show ?thesis using "3.IH"(1) [OF True] by auto
  next
    case False
    show ?thesis
    proof (cases "dep \<in> visited (recordDep E k i dep st)")
      case True
      then show ?thesis using False "3.IH"(4) [OF False] by auto
    next
      case nv: False
      from "3.IH"(2) [OF False nv] "3.IH"(3) [OF False nv] show ?thesis
        using False nv by simp blast
    qed
  qed
qed

lemma two_cycle:
  assumes ia: "getModuleInfo E A = Some \<lparr>importedIds = [B], dynamicallyImportedIds = []\<rparr>"
    and ib: "getModuleInfo E B = Some \<lparr>importedIds = [A], dynamicallyImportedIds = []\<rparr>"
    and sa: "hasSupportedExt E A" and sb: "hasSupportedExt E B"
    and ka: "\<not> shouldSkip A" and kb: "\<not> shouldSkip B"
    and keys: "edgeKey (toRel E A) (toRel E B) Static \<noteq> edgeKey (toRel E B) (toRel E A) Static"
  shows "edges (runEntries E [A])
           = [\<lparr>source = toRel E A, target = toRel E B, kind = Static\<rparr>,
              \<lparr>source = toRel E B, target = toRel E A, kind = Static\<rparr>]"
    and "nodes (runEntries E [A])
           = [\<lparr>id_node = toRel E A, order_node = 1\<rparr>, \<lparr>id_node = toRel E B, order_node = 2\<rparr>]"
proof -
  have ne: "A \<noteq> []" using ka by (auto simp: shouldSkip_def)
  have ab: "A \<noteq> B" "B \<noteq> A" using keys by auto
  have rab: "toRel E A \<noteq> toRel E B" "toRel E B \<noteq> toRel E A" using keys by auto
  let ?s1 = "initState\<lparr>visited := {A},
               nodeIdToOrder := [toRel E A \<mapsto> 1], orderCounter := 2,
               nodes := [\<lparr>id_node = toRel E A, order_node = 1\<rparr>],
               entryRelIds := [toRel E A]\<rparr>"
  have start: "processEntry E initState A = traverse E A ?s1"
    using ne sa by (simp add: processEntry_def Let_def numeral_2_eq_2 numeral_3_eq_3 ensureNode_def markVisited_def initState_def)
  let ?s2 = "?s1\<lparr>nodeIdToOrder := [toRel E A \<mapsto> 1, toRel E B \<mapsto> 2], orderCounter := 3,
               nodes := [\<lparr>id_node = toRel E A, order_node = 1\<rparr>, \<lparr>id_node = toRel E B, order_node = 2\<rparr>],
               edgeKeySet := {edgeKey (toRel E A) (toRel E B) Static},
               edges := [\<lparr>source = toRel E A, target = toRel E B, kind = Static\<rparr>]\<rparr>"
  have r1: "registerSelf E A ?s1 = ?s1"
    by (simp add: registerSelf_def Let_def numeral_2_eq_2 numeral_3_eq_3)
  have d1: "recordDep E Static A B ?s1 = ?s2"
    using sa sb rab
    by (simp add: recordDep_def Let_def numeral_2_eq_2 numeral_3_eq_3 ensureNode_def addEdge_def initState_def)
  let ?s3 = "markVisited B ?s2"
  have r2: "registerSelf E B ?s3 = ?s3"
    using rab by (simp add: registerSelf_def Let_def markVisited_def numeral_2_eq_2 numeral_3_eq_3)
  let ?s4 = "?s3\<lparr>edgeKeySet := {edgeKey (toRel E B) (toRel E A) Static, edgeKey (toRel E A) (toRel E B) Static},
               edges := [\<lparr>source = toRel E A, target = toRel E B, kind = Static\<rparr>,
                         \<lparr>source = toRel E B, target = toRel E A, kind = Static\<rparr>]\<rparr>"
  have d2: "recordDep E Static B A ?s3 = ?s4"
    using sa sb rab keys
    by (simp add: recordDep_def Let_def addEdge_def markVisited_def initState_def numeral_2_eq_2 numeral_3_eq_3)
  have inner: "traverse E B ?s3 = ?s4"
    using ib r2 d2 ka
    by (simp add: traverse.simps markVisited_def initState_def numeral_2_eq_2 numeral_3_eq_3)
  have outer: "traverse E A ?s1 = ?s4"
    using ia r1 d1 kb ab inner
    by (simp add: traverse.simps initState_def numeral_2_eq_2 numeral_3_eq_3)
  have "runEntries E [A] = ?s4"
    using start outer by (simp add: runEntries_def)
  then show "edges (runEntries E [A])
           = [\<lparr>source = toRel E A, target = toRel E B, kind = Static\<rparr>,
              \<lparr>source = toRel E B, target = toRel E A, kind = Static\<rparr>]"
    and "nodes (runEntries E [A])
           = [\<lparr>id_node = toRel E A, order_node = 1\<rparr>, \<lparr>id_node = toRel E B, order_node = 2\<rparr>]"
    by (simp_all add: markVisited_def)
qed

lemma entry_marked_visited:
  assumes "entry \<noteq> []"
  shows "entry \<in> visited (processEntry E st entry)"
proof -
  obtain s where "processEntry E st entry = traverse E entry (markVisited entry s)"
    using assms by (simp add: processEntry_def Let_def)
  then show ?thesis
    using visited_mono(1) [of "markVisited entry s" E entry] by auto
qed

lemma revisit_not_entered:
  assumes "\<not> shouldSkip dep" "dep \<in> visited st"
  shows "traverse_deps E k i (dep # deps) st = traverse_deps E k i deps (recordDep E k i dep st)"
  using assms by simp

text \<open>
  The key of an edge is the text \<open>source|target|kind\<close>. Two ids without the separator
  \<open>|\<close> in them give the same key only when they are equal.
\<close>

lemma edgeKey_differs_without_separator:
  assumes "CHR ''|'' \<notin> set a" "CHR ''|'' \<notin> set b" "a \<noteq> b"
  shows "edgeKey a b k \<noteq> edgeKey b a k"
proof
  let ?P = "\<lambda>c. c \<noteq> CHR ''|''"
  assume eq: "edgeKey a b k = edgeKey b a k"
  have "takeWhile ?P (edgeKey a b k) = a"
    using assms(1) by (auto simp: edgeKey_def takeWhile_tail)
  moreover have "takeWhile ?P (edgeKey b a k) = b"
    using assms(2) by (auto simp: edgeKey_def takeWhile_tail)
  ultimately show False using eq assms(3) by simp
qed

text \<open>
  The walk terminates for every module table, every identifier and every
  state: each call of \<open>traverse\<close> and of the dependency loop lies in the accessible part
  of the recursion relation, which the termination proof derives from the finite set of
  dependency ids of the table that are not yet in \<open>visited\<close>. The entry is in
  \<open>visited\<close> from the start of its walk; \<open>visited\<close> only grows, and only by dependency
  ids of the table; and a dependency that is already in \<open>visited\<close> is recorded but not
  entered again. So an identifier is entered at most once during the walk of an entry.
  On a cycle of two modules \<open>A\<close> and \<open>B\<close> that are supported and not skipped, and whose
  two edge keys differ (as they do for different canonical ids without \<open>|\<close>), the edges
  are exactly \<open>A\<rightarrow>B\<close> static and \<open>B\<rightarrow>A\<close> static, each once.
\<close>

theorem walk_terminates:
  "traverse_traverse_deps_dom (Inl (E, i, st)) \<and>
   traverse_traverse_deps_dom (Inr (E, k, i, deps, st)) \<and>
   finite (depIds (graph E)) \<and>
   (entry \<noteq> [] \<longrightarrow> entry \<in> visited (processEntry E st entry)) \<and>
   visited st \<subseteq> visited (traverse E i st) \<and>
   visited (traverse E i st) \<subseteq> visited st \<union> depIds (graph E) \<and>
   (\<not> shouldSkip dep \<and> dep \<in> visited st \<longrightarrow>
      traverse_deps E k i (dep # deps) st = traverse_deps E k i deps (recordDep E k i dep st)) \<and>
   (getModuleInfo E A = Some \<lparr>importedIds = [B], dynamicallyImportedIds = []\<rparr> \<and>
    getModuleInfo E B = Some \<lparr>importedIds = [A], dynamicallyImportedIds = []\<rparr> \<and>
    hasSupportedExt E A \<and> hasSupportedExt E B \<and> \<not> shouldSkip A \<and> \<not> shouldSkip B \<and>
    edgeKey (toRel E A) (toRel E B) Static \<noteq> edgeKey (toRel E B) (toRel E A) Static \<longrightarrow>
      edges (runEntries E [A])
        = [\<lparr>source = toRel E A, target = toRel E B, kind = Static\<rparr>,
           \<lparr>source = toRel E B, target = toRel E A, kind = Static\<rparr>])"
proof -
  have dom: "traverse_traverse_deps_dom (Inl (E, i, st))"
    "traverse_traverse_deps_dom (Inr (E, k, i, deps, st))"
    using walk_total by blast+
  note fin = finite_depIds [of "graph E"]
  note seed = entry_marked_visited [of entry E st]
  note grow = visited_mono(1) [of st E i] visited_bound(1) [of E i st]
  note guard = revisit_not_entered [of dep st E k i deps]
  note cycle = two_cycle(1) [of E A B]
  show ?thesis
    using dom fin seed grow guard cycle by blast
qed

theorem walk_terminates_witness:
  "getModuleInfo (mkEnv (posix ''/proj'') cycleOptions exampleConfig cycleGraph) ''/proj/src/a.ts''
     = Some \<lparr>importedIds = [''/proj/src/b.ts''], dynamicallyImportedIds = []\<rparr> \<and>
   getModuleInfo (mkEnv (posix ''/proj'') cycleOptions exampleConfig cycleGraph) ''/proj/src/b.ts''
     = Some \<lparr>importedIds = [''/proj/src/a.ts''], dynamicallyImportedIds = []\<rparr> \<and>
   hasSupportedExt (mkEnv (posix ''/proj'') cycleOptions exampleConfig cycleGraph) ''/proj/src/a.ts'' \<and>
   hasSupportedExt (mkEnv (posix ''/proj'') cycleOptions exampleConfig cycleGraph) ''/proj/src/b.ts'' \<and>
   \<not> shouldSkip ''/proj/src/a.ts'' \<and> \<not> shouldSkip ''/proj/src/b.ts'' \<and>
   edgeKey ''src/a.ts'' ''src/b.ts'' Static \<noteq> edgeKey ''src/b.ts'' ''src/a.ts'' Static \<and>
   ''/proj/src/a.ts'' \<in> visited (markVisited ''/proj/src/a.ts'' initState) \<and>
   edges (runEntries (mkEnv (posix ''/proj'') cycleOptions exampleConfig cycleGraph) [''/proj/src/a.ts''])
     = [\<lparr>source = ''src/a.ts'', target = ''src/b.ts'', kind = Static\<rparr>,
        \<lparr>source = ''src/b.ts'', target = ''src/a.ts'', kind = Static\<rparr>] \<and>
   ''/proj/src/a.ts''
     \<in> visited (processEntry (mkEnv (posix ''/proj'') cycleOptions exampleConfig cycleGraph)
                   (markVisited ''/proj/src/a.ts'' initState) ''/proj/src/a.ts'') \<and>
   traverse_deps (mkEnv (posix ''/proj'') cycleOptions exampleConfig cycleGraph) Static
       ''/proj/src/b.ts'' [''/proj/src/a.ts''] (markVisited ''/proj/src/a.ts'' initState)
     = recordDep (mkEnv (posix ''/proj'') cycleOptions exampleConfig cycleGraph) Static
         ''/proj/src/b.ts'' ''/proj/src/a.ts'' (markVisited ''/proj/src/a.ts'' initState) \<and>
   generateBundle (posix ''/proj'') cycleOptions (Some exampleConfig) cycleGraph
     = Some \<lparr>nodes_out = [\<lparr>id_node = ''src/a.ts'', order_node = 1\<rparr>,
                          \<lparr>id_node = ''src/b.ts'', order_node = 2\<rparr>],
             edges_out = [\<lparr>source = ''src/a.ts'', target = ''src/b.ts'', kind = Static\<rparr>,
                          \<lparr>source = ''src/b.ts'', target = ''src/a.ts'', kind = Static\<rparr>],
             entries_out = [''src/a.ts'']\<rparr>"
proof -
  let ?E = "mkEnv (posix ''/proj'') cycleOptions exampleConfig cycleGraph"
  let ?A = "''/proj/src/a.ts''" and ?B = "''/proj/src/b.ts''"
  let ?st = "markVisited ?A initState"
  have ia: "getModuleInfo ?E ?A = Some \<lparr>importedIds = [?B], dynamicallyImportedIds = []\<rparr>"
    by code_simp
  have ib: "getModuleInfo ?E ?B = Some \<lparr>importedIds = [?A], dynamicallyImportedIds = []\<rparr>"
    by code_simp
  have sa: "hasSupportedExt ?E ?A" by code_simp
  have sb: "hasSupportedExt ?E ?B" by code_simp
  have ka: "\<not> shouldSkip ?A" by code_simp
  have kb: "\<not> shouldSkip ?B" by code_simp
  have ra: "toRel ?E ?A = ''src/a.ts''" by code_simp
  have rb: "toRel ?E ?B = ''src/b.ts''" by code_simp
  have keys: "edgeKey ''src/a.ts'' ''src/b.ts'' Static \<noteq> edgeKey ''src/b.ts'' ''src/a.ts'' Static"
    by code_simp
  have vis: "?A \<in> visited ?st" by (simp add: markVisited_def)
  have ne: "?A \<noteq> []" by simp
  have run: "generateBundle (posix ''/proj'') cycleOptions (Some exampleConfig) cycleGraph
     = Some \<lparr>nodes_out = [\<lparr>id_node = ''src/a.ts'', order_node = 1\<rparr>,
                          \<lparr>id_node = ''src/b.ts'', order_node = 2\<rparr>],
             edges_out = [\<lparr>source = ''src/a.ts'', target = ''src/b.ts'', kind = Static\<rparr>,
                          \<lparr>source = ''src/b.ts'', target = ''src/a.ts'', kind = Static\<rparr>],
             entries_out = [''src/a.ts'']\<rparr>"
    by code_simp
  note inst = walk_terminates [of ?E ?B ?st Static "[]" ?A ?A ?A ?B]
  have e: "edges (runEntries ?E [?A])
     = [\<lparr>source = toRel ?E ?A, target = toRel ?E ?B, kind = Static\<rparr>,
        \<lparr>source = toRel ?E ?B, target = toRel ?E ?A, kind = Static\<rparr>]"
    using inst ia ib sa sb ka kb keys unfolding ra rb by blast
  have seed: "?A \<in> visited (processEntry ?E ?st ?A)"
    using inst ne by blast
  have "traverse_deps ?E Static ?B [?A] ?st
          = traverse_deps ?E Static ?B [] (recordDep ?E Static ?B ?A ?st)"
    using inst ka vis by blast
  then have guard: "traverse_deps ?E Static ?B [?A] ?st = recordDep ?E Static ?B ?A ?st"
    by simp
  note e' = e [unfolded ra rb]
  show ?thesis
    by (intro conjI) (fact ia ib sa sb ka kb keys vis e' seed guard run)+
qed

text \<open>
  Claim C6. Termination holds as claimed (\<open>walk_terminates\<close>), and so does the part
  on the two-module cycle whenever the keys of the two edges differ. The key is the text
  \<open>source|target|kind\<close>, however, and it does not tell the pair
  (\<open>a.ts\<close>, \<open>a.ts|a.ts\<close>) from the pair (\<open>a.ts|a.ts\<close>, \<open>a.ts\<close>). On the cycle of
  \<open>separatorGraph\<close> both modules are supported and not skipped and have different
  canonical ids, yet \<open>addEdge\<close> takes the edge back from \<open>a.ts|a.ts\<close> to \<open>a.ts\<close> for
  one it has already recorded: the output has one edge where the claim has two.
\<close>

theorem two_cycle_key_collision:
  "hasSupportedExt (mkEnv (posix ''/proj'') separatorOptions exampleConfig separatorGraph) ''/proj/a.ts'' \<and>
   hasSupportedExt (mkEnv (posix ''/proj'') separatorOptions exampleConfig separatorGraph) ''/proj/a.ts|a.ts'' \<and>
   \<not> shouldSkip ''/proj/a.ts'' \<and> \<not> shouldSkip ''/proj/a.ts|a.ts'' \<and>
   edgeKey ''a.ts'' ''a.ts|a.ts'' Static = edgeKey ''a.ts|a.ts'' ''a.ts'' Static \<and>
   generateBundle (posix ''/proj'') separatorOptions (Some exampleConfig) separatorGraph
     = Some \<lparr>nodes_out = [\<lparr>id_node = ''a.ts'', order_node = 1\<rparr>,
                          \<lparr>id_node = ''a.ts|a.ts'', order_node = 2\<rparr>],
             edges_out = [\<lparr>source = ''a.ts'', target = ''a.ts|a.ts'', kind = Static\<rparr>],
             entries_out = [''a.ts'']\<rparr>"
  by code_simp

end
